(* ===== verification/Chat_Prelude.thy ===== *)
theory Chat_Prelude
  imports Main "HOL-Library.AList" "HOL-Library.Multiset"
begin

text \<open>
  Shared vocabulary of the chat-relay development: the names of the model's base types,
  the collections of facts the component theories add to, JavaScript's truthiness test
  on the optional strings the server stores on a connection, and the generic facts on
  lists, keyed search and association lists that the component proofs share.
\<close>

section \<open>Fact collections\<close>

named_theorems store_defs "unfolding rules of the document-store primitives"
named_theorems transport_defs "unfolding rules of the broadcast primitives"
named_theorems handler_defs "unfolding rules of the event handlers"
named_theorems inv_defs "unfolding rules of the well-formedness predicates"

section \<open>Base types\<close>

type_synonym room_id = string
type_synonym username = string
type_synonym timestamp = nat
type_synonym object_id = nat
type_synonym socket_id = nat

section \<open>JavaScript truthiness of an optional string\<close>

text \<open>
  A connection's \<^verbatim>\<open>roomId\<close> and \<^verbatim>\<open>username\<close> are \<^verbatim>\<open>undefined\<close> until a join binds them
  to strings. In a condition, \<^verbatim>\<open>undefined\<close> and the empty string are both false.
\<close>

fun js_truthy :: "string option \<Rightarrow> bool" where
  "js_truthy None = False"
| "js_truthy (Some s) = (s \<noteq> [])"

lemma js_truthy_iff: "js_truthy v \<longleftrightarrow> (\<exists>s. v = Some s \<and> s \<noteq> [])"
  by (cases v) auto

section \<open>Lists\<close>

lemma sorted_map_take: "sorted (map f xs) \<Longrightarrow> sorted (map f (take n xs))"
  by (simp add: take_map [symmetric] sorted_wrt_take)

lemma sorted_map_drop: "sorted (map f xs) \<Longrightarrow> sorted (map f (drop n xs))"
  by (simp add: drop_map [symmetric] sorted_wrt_drop)

lemma filter_neq_Nil_iff: "filter P xs \<noteq> [] \<longleftrightarrow> (\<exists>x \<in> set xs. P x)"
  by (simp add: filter_empty_conv)

lemma all_eq_distinct_cases:
  "distinct xs \<Longrightarrow> \<forall>x \<in> set xs. x = u \<Longrightarrow> xs = [] \<or> xs = [u]"
  by (cases xs; cases "tl xs") auto

lemma filter_remove_last_member:
  "distinct xs \<Longrightarrow> filter (\<lambda>p. p \<noteq> u) xs = [] \<longleftrightarrow> xs = [] \<or> xs = [u]"
  using all_eq_distinct_cases [of xs u] by (auto simp: filter_empty_conv)

lemma filter_remove_absent: "u \<notin> set xs \<Longrightarrow> filter (\<lambda>p. p \<noteq> u) xs = xs"
  by (induction xs) auto

lemma filter_remove_snoc:
  "u \<notin> set xs \<Longrightarrow> filter (\<lambda>p. p \<noteq> u) (xs @ [u]) = xs"
  by (simp add: filter_remove_absent)

lemma set_filter_remove: "set (filter (\<lambda>p. p \<noteq> u) xs) = set xs - {u}"
  by auto

lemma filter_eq_distinct:
  "distinct xs \<Longrightarrow> filter (\<lambda>r. r = a) xs = (if a \<in> set xs then [a] else [])"
  by (induction xs) (auto simp: filter_empty_conv)

lemma last_notin_take: "distinct xs \<Longrightarrow> n < length xs \<Longrightarrow> last xs \<notin> set (take n xs)"
proof -
  assume d: "distinct xs" and n: "n < length xs"
  from n have "drop n xs \<noteq> []" by simp
  then have "last (drop n xs) \<in> set (drop n xs)" by (rule last_in_set)
  moreover from n have "last (drop n xs) = last xs" by simp
  moreover from d have "set (take n xs) \<inter> set (drop n xs) = {}"
    by (rule set_take_disj_set_drop_if_distinct) simp
  ultimately show ?thesis by auto
qed

lemma last_in_drop: "n < length xs \<Longrightarrow> last xs \<in> set (drop n xs)"
  using last_in_set [of "drop n xs"] by simp

lemma distinct_snoc: "distinct (xs @ [x]) \<longleftrightarrow> distinct xs \<and> x \<notin> set xs"
  by auto

section \<open>Stable sorting by a key\<close>

text \<open>
  \<open>sort_key\<close> is a stable ascending sort; \<open>rev (sort_key f (rev xs))\<close> is the stable
  descending one. Sorting ascending what was sorted descending gives the ascending sort
  of the original list, ties included.
\<close>

lemma filter_key_distinct:
  "distinct (map f xs) \<Longrightarrow> k \<in> set xs \<Longrightarrow> filter (\<lambda>x. f k = f x) xs = [k]"
proof (induction xs)
  case Nil
  then show ?case by simp
next
  case (Cons x xs)
  show ?case
  proof (cases "k = x")
    case True
    with Cons.prems have "filter (\<lambda>y. f x = f y) xs = []"
      by (auto simp: filter_empty_conv)
    with True show ?thesis by simp
  next
    case False
    with Cons have "filter (\<lambda>y. f k = f y) xs = [k]" "f k \<noteq> f x"
      by (auto simp: image_iff)
    then show ?thesis by simp
  qed
qed

lemma sort_key_rev_strict:
  assumes "sorted_wrt (<) (map f xs)"
  shows "sort_key f (rev xs) = xs"
proof (rule properties_for_sort_key)
  from assms have d: "distinct (map f xs)" and s: "sorted (map f xs)"
    by (simp_all add: strict_sorted_iff)
  show "mset xs = mset (rev xs)" by simp
  show "sorted (map f xs)" by (rule s)
  fix k assume "k \<in> set xs"
  with d have "filter (\<lambda>x. f k = f x) xs = [k]" by (rule filter_key_distinct)
  then show "filter (\<lambda>x. f k = f x) xs = filter (\<lambda>x. f k = f x) (rev xs)"
    by (simp add: rev_filter [symmetric])
qed

lemma sort_key_desc_asc: "sort_key f (rev (sort_key f (rev xs))) = sort_key f xs"
proof (rule properties_for_sort_key)
  show "mset (sort_key f xs) = mset (rev (sort_key f (rev xs)))" by simp
  show "sorted (map f (sort_key f xs))" by simp
  fix k
  have "filter (\<lambda>x. f x = f k) (rev (sort_key f (rev xs))) = filter (\<lambda>x. f x = f k) xs"
    by (simp add: rev_filter [symmetric] sort_key_stable)
  then show "filter (\<lambda>x. f k = f x) (sort_key f xs) =
             filter (\<lambda>x. f k = f x) (rev (sort_key f (rev xs)))"
    by (simp add: sort_key_stable eq_commute [of "f k"])
qed

lemma sorted_wrt_map_drop:
  "sorted_wrt R (map f xs) \<Longrightarrow> sorted_wrt R (map f (drop n xs))"
  by (simp add: drop_map [symmetric] sorted_wrt_drop)

section \<open>Search by key\<close>

text \<open>
  A collection is a list of documents; \<open>find\<close> with a key test is the store's
  \<^verbatim>\<open>findOne\<close>. With distinct keys the list is a finite map from keys to documents.
\<close>

lemma find_key_SomeD:
  "find (\<lambda>x. key x = k) xs = Some y \<Longrightarrow> y \<in> set xs \<and> key y = k"
  by (induction xs) (auto split: if_splits)

lemma find_key_None_iff: "find (\<lambda>x. key x = k) xs = None \<longleftrightarrow> k \<notin> key ` set xs"
  by (induction xs) auto

lemma find_key_Some_iff:
  "distinct (map key xs) \<Longrightarrow> find (\<lambda>x. key x = k) xs = Some y \<longleftrightarrow> y \<in> set xs \<and> key y = k"
  by (induction xs) (auto split: if_splits)

lemma find_key_append:
  "find (\<lambda>x. key x = k) (xs @ ys) =
     (case find (\<lambda>x. key x = k) xs of None \<Rightarrow> find (\<lambda>x. key x = k) ys | Some y \<Rightarrow> Some y)"
  by (induction xs) auto

lemma find_key_filter_other:
  "k \<noteq> k' \<Longrightarrow> find (\<lambda>x. key x = k) (filter (\<lambda>x. key x \<noteq> k') xs) = find (\<lambda>x. key x = k) xs"
  by (induction xs) auto

lemma find_key_filter_same:
  "find (\<lambda>x. key x = k) (filter (\<lambda>x. key x \<noteq> k) xs) = None"
  by (induction xs) auto

text \<open>Deleting the first document that passes a test: the store's \<^verbatim>\<open>deleteOne\<close>.\<close>

fun delete_first :: "('a \<Rightarrow> bool) \<Rightarrow> 'a list \<Rightarrow> 'a list" where
  "delete_first P [] = []"
| "delete_first P (x # xs) = (if P x then xs else x # delete_first P xs)"

lemma set_delete_first_subset: "set (delete_first P xs) \<subseteq> set xs"
  by (induction xs) auto

lemma delete_first_none: "\<forall>x \<in> set xs. \<not> P x \<Longrightarrow> delete_first P xs = xs"
  by (induction xs) auto

lemma delete_first_key_filter:
  "distinct (map key xs) \<Longrightarrow>
     delete_first (\<lambda>x. key x = k) xs = filter (\<lambda>x. key x \<noteq> k) xs"
proof (induction xs)
  case Nil
  then show ?case by simp
next
  case (Cons x xs)
  from Cons.prems have "key x = k \<Longrightarrow> filter (\<lambda>y. key y \<noteq> k) xs = xs"
    by (intro filter_True) (force simp: image_iff)
  with Cons show ?case by simp
qed

lemma distinct_map_delete_first:
  "distinct (map key xs) \<Longrightarrow> distinct (map key (delete_first P xs))"
  by (induction xs) (use set_delete_first_subset in \<open>force+\<close>)

text \<open>
  Updating the first document that passes a test: the store's \<^verbatim>\<open>updateOne\<close>. When the
  test can pass for one key only and keys are distinct, it is a \<open>map\<close>.
\<close>

fun update_first :: "('a \<Rightarrow> bool) \<Rightarrow> ('a \<Rightarrow> 'a) \<Rightarrow> 'a list \<Rightarrow> 'a list" where
  "update_first P f [] = []"
| "update_first P f (x # xs) = (if P x then f x # xs else x # update_first P f xs)"

lemma length_update_first [simp]: "length (update_first P f xs) = length xs"
  by (induction xs) auto

lemma update_first_none: "\<forall>x \<in> set xs. \<not> P x \<Longrightarrow> update_first P f xs = xs"
  by (induction xs) auto

lemma map_key_update_first:
  "(\<And>x. key (f x) = key x) \<Longrightarrow> map key (update_first P f xs) = map key xs"
  by (induction xs) auto

lemma set_update_first_subset: "set (update_first P f xs) \<subseteq> set xs \<union> f ` {x \<in> set xs. P x}"
  by (induction xs) auto

lemma find_key_update_first:
  assumes "find (\<lambda>x. key x = k) xs = Some y" "P y" "\<And>x. P x \<Longrightarrow> key x = k"
    and "\<And>x. key (f x) = key x"
  shows "find (\<lambda>x. key x = k') (update_first P f xs) =
           (if k' = k then Some (f y) else find (\<lambda>x. key x = k') xs)"
  using assms(1)
proof (induction xs)
  case Nil
  then show ?case by simp
next
  case (Cons x xs)
  show ?case
  proof (cases "key x = k")
    case True
    with Cons.prems assms(2,4) show ?thesis by auto
  next
    case False
    with assms(3) have "\<not> P x" by auto
    with False Cons show ?thesis by auto
  qed
qed

lemma update_first_key_map:
  assumes "distinct (map key xs)" "\<And>x. P x \<Longrightarrow> key x = k"
  shows "update_first P f xs = map (\<lambda>x. if P x then f x else x) xs"
  using assms(1)
proof (induction xs)
  case Nil
  then show ?case by simp
next
  case (Cons x xs)
  from Cons.prems assms(2) have "P x \<Longrightarrow> map (\<lambda>y. if P y then f y else y) xs = xs"
    by (intro map_idI) (force simp: image_iff)
  with Cons show ?case by simp
qed

lemma find_key_map:
  "(\<And>x. key (g x) = key x) \<Longrightarrow>
     find (\<lambda>x. key x = k) (map g xs) = map_option g (find (\<lambda>x. key x = k) xs)"
  by (induction xs) auto

section \<open>Association lists\<close>

lemma map_of_delete_same [simp]: "map_of (AList.delete k al) k = None"
  by (simp add: delete_conv')

lemma map_of_delete_other: "k' \<noteq> k \<Longrightarrow> map_of (AList.delete k al) k' = map_of al k'"
  by (simp add: delete_conv')

lemma map_of_update_same [simp]: "map_of (AList.update k v al) k = Some v"
  by (simp add: update_conv')

lemma map_of_update_other: "k' \<noteq> k \<Longrightarrow> map_of (AList.update k v al) k' = map_of al k'"
  by (simp add: update_conv')

lemma fst_set_update: "fst ` set (AList.update k v al) = insert k (fst ` set al)"
  by (induction al) auto

lemma map_fst_update_present:
  "k \<in> fst ` set al \<Longrightarrow> map fst (AList.update k v al) = map fst al"
  by (simp add: update_keys)

lemmas alist_simps =
  map_of_delete_other map_of_update_other distinct_update distinct_delete

end
