(* ===== verification/Persistence.thy ===== *)
theory Persistence
  imports Chat_Prelude
begin

text \<open>
  The persistence model of \<^verbatim>\<open>src/server.js\<close>: the two document types declared by
  \<^verbatim>\<open>messageSchema\<close> and \<^verbatim>\<open>roomSchema\<close>, the two collections, and the store calls the
  handlers make on them (\<^verbatim>\<open>findOne\<close>, \<^verbatim>\<open>save\<close>, \<^verbatim>\<open>deleteOne\<close>, \<^verbatim>\<open>deleteMany\<close> and the
  \<^verbatim>\<open>find\<close>/\<^verbatim>\<open>sort\<close>/\<^verbatim>\<open>limit\<close> query builder).

  A collection is the list of its documents in insertion order. Besides the fields its
  schema declares, every document carries the two fields the object mapper adds to each
  schema: its object id \<^verbatim>\<open>_id\<close>, given when the document is constructed, and for rooms
  the version key \<^verbatim>\<open>__v\<close>, which \<^verbatim>\<open>save\<close> uses to detect that the stored document has
  changed since it was read. Every call that reaches
  the store consumes one flag of the fault schedule \<open>faults\<close>: \<open>True\<close> makes the call
  throw, so that each \<^verbatim>\<open>catch\<close> branch of the handlers is a branch of the model; an empty
  schedule means that no call fails. Schema validation (\<^verbatim>\<open>required: true\<close>) is decided
  before the store is reached and consumes no flag.
\<close>

section \<open>Documents\<close>

record message =
  msg_id :: object_id
  msg_roomId :: room_id
  msg_sender :: username
  msg_text :: string
  msg_timestamp :: timestamp

record room =
  room_oid :: object_id
  room_roomId :: room_id
  room_participants :: "username list"
  room_createdAt :: timestamp
  room_version :: nat

text \<open>A required string field is present and not empty.\<close>

definition validate_message :: "message \<Rightarrow> bool" where
  "validate_message m \<longleftrightarrow> msg_roomId m \<noteq> [] \<and> msg_sender m \<noteq> [] \<and> msg_text m \<noteq> []"

definition validate_room :: "room \<Rightarrow> bool" where
  "validate_room r \<longleftrightarrow> room_roomId r \<noteq> []"

section \<open>The store and its fault schedule\<close>

datatype store_error =
  StoreUnavailable | ValidationFailed | DuplicateKey | DocumentNotFound | VersionError

record db =
  rooms :: "room list"
  messages :: "message list"
  next_oid :: object_id
  faults :: "bool list"

type_synonym 'a store_result = "(store_error + 'a) \<times> db"

definition empty_db :: db where
  "empty_db = \<lparr>rooms = [], messages = [], next_oid = 0, faults = []\<rparr>"

definition store_call :: "(db \<Rightarrow> 'a store_result) \<Rightarrow> db \<Rightarrow> 'a store_result" where
  "store_call f d =
     (case faults d of
        [] \<Rightarrow> f d
      | b # bs \<Rightarrow> if b then (Inl StoreUnavailable, d\<lparr>faults := bs\<rparr>) else f (d\<lparr>faults := bs\<rparr>))"

section \<open>Room collection\<close>

definition find_room :: "room_id \<Rightarrow> db \<Rightarrow> room option" where
  "find_room rid d = find (\<lambda>r. room_roomId r = rid) (rooms d)"

definition Room_findOne :: "room_id \<Rightarrow> db \<Rightarrow> room option store_result" where
  "Room_findOne rid = store_call (\<lambda>d. (Inr (find_room rid d), d))"

text \<open>
  \<^verbatim>\<open>save\<close> sends the store what the handler changed in its copy of the document since it
  read it, not the copy. The handlers change a room in three ways: they construct it
  (\<^verbatim>\<open>new Room\<close>, an insert), they \<^verbatim>\<open>push\<close> a name onto its participant array, or they assign
  a new array to \<^verbatim>\<open>participants\<close>. A push is sent as an append to the stored array of the
  document with the copy's \<^verbatim>\<open>_id\<close>. An assignment replaces the stored array and is sent
  only to the document that has the copy's \<^verbatim>\<open>_id\<close> and still its version; an array
  assigned with the elements it had changes nothing, and \<^verbatim>\<open>save\<close> then only asks whether
  the document is still stored. Both updates add one to the version, in the store and
  in the copy. An update that finds no document throws.

  The store keeps \<^verbatim>\<open>_id\<close> unique and nothing changes the \<^verbatim>\<open>roomId\<close> of a document, so the
  stored document with the \<^verbatim>\<open>_id\<close> of a copy has the \<^verbatim>\<open>roomId\<close> of the copy. \<open>same_doc\<close> states
  both: in a collection with distinct ids it selects by \<^verbatim>\<open>_id\<close> (\<open>same_doc_by_id\<close>), and
  the lemmas on saves need no premise that the ids of the list are distinct.
\<close>

datatype room_change = Created | Pushed username | Assigned "username list"

definition same_doc :: "room \<Rightarrow> room \<Rightarrow> bool" where
  "same_doc r x \<longleftrightarrow> room_oid x = room_oid r \<and> room_roomId x = room_roomId r"

definition same_version :: "room \<Rightarrow> room \<Rightarrow> bool" where
  "same_version r x \<longleftrightarrow> same_doc r x \<and> room_version x = room_version r"

definition next_version :: "room \<Rightarrow> room" where
  "next_version r = r\<lparr>room_version := Suc (room_version r)\<rparr>"

lemma same_doc_participants [simp]:
  "same_doc (r\<lparr>room_participants := ps\<rparr>) = same_doc r"
  "same_version (r\<lparr>room_participants := ps\<rparr>) = same_version r"
  "same_doc (next_version r) = same_doc r"
  by (simp_all add: same_doc_def same_version_def next_version_def fun_eq_iff)

lemma same_doc_by_id:
  assumes "distinct (map room_oid xs)" "r \<in> set xs" "room_oid r' = room_oid r"
    "room_roomId r' = room_roomId r" "x \<in> set xs"
  shows "same_doc r' x \<longleftrightarrow> room_oid x = room_oid r'"
  using assms by (auto simp: same_doc_def distinct_map dest: inj_onD)

lemma next_version_fields [simp]:
  "room_oid (next_version r) = room_oid r"
  "room_roomId (next_version r) = room_roomId r"
  "room_participants (next_version r) = room_participants r"
  "room_createdAt (next_version r) = room_createdAt r"
  "room_version (next_version r) = Suc (room_version r)"
  by (simp_all add: next_version_def)

definition insert_room :: "room \<Rightarrow> db \<Rightarrow> room store_result" where
  "insert_room r d =
     (if room_roomId r \<in> room_roomId ` set (rooms d) then (Inl DuplicateKey, d)
      else (Inr r, d\<lparr>rooms := rooms d @ [r]\<rparr>))"

definition push_room :: "username \<Rightarrow> room \<Rightarrow> db \<Rightarrow> room store_result" where
  "push_room u r d =
     (if \<not> list_ex (same_doc r) (rooms d) then (Inl VersionError, d)
      else (Inr (next_version r),
            d\<lparr>rooms := update_first (same_doc r)
                 (\<lambda>x. next_version (x\<lparr>room_participants := room_participants x @ [u]\<rparr>))
                 (rooms d)\<rparr>))"

definition assign_room :: "room \<Rightarrow> db \<Rightarrow> room store_result" where
  "assign_room r d =
     (if \<not> list_ex (same_version r) (rooms d) then (Inl VersionError, d)
      else (Inr (next_version r),
            d\<lparr>rooms := update_first (same_version r)
                 (\<lambda>x. next_version (x\<lparr>room_participants := room_participants r\<rparr>))
                 (rooms d)\<rparr>))"

definition check_room :: "room \<Rightarrow> db \<Rightarrow> room store_result" where
  "check_room r d =
     (if \<not> list_ex (same_doc r) (rooms d) then (Inl DocumentNotFound, d) else (Inr r, d))"

fun send_change :: "room_change \<Rightarrow> room \<Rightarrow> db \<Rightarrow> room store_result" where
  "send_change Created r = insert_room r"
| "send_change (Pushed u) r = push_room u r"
| "send_change (Assigned prior) r =
     (if room_participants r = prior then check_room r else assign_room r)"

definition Room_save :: "room_change \<Rightarrow> room \<Rightarrow> db \<Rightarrow> room store_result" where
  "Room_save c r d =
     (if \<not> validate_room r then (Inl ValidationFailed, d)
      else store_call (send_change c r) d)"

definition Room_deleteOne :: "room_id \<Rightarrow> db \<Rightarrow> unit store_result" where
  "Room_deleteOne rid =
     store_call (\<lambda>d. (Inr (), d\<lparr>rooms := delete_first (\<lambda>r. room_roomId r = rid) (rooms d)\<rparr>))"

section \<open>Message collection\<close>

definition Message_save :: "message \<Rightarrow> db \<Rightarrow> message store_result" where
  "Message_save m d =
     (if \<not> validate_message m then (Inl ValidationFailed, d)
      else store_call (\<lambda>d. (Inr m, d\<lparr>messages := messages d @ [m]\<rparr>)) d)"

definition Message_deleteMany :: "room_id \<Rightarrow> db \<Rightarrow> nat store_result" where
  "Message_deleteMany rid =
     store_call (\<lambda>d. (Inr (length (filter (\<lambda>m. msg_roomId m = rid) (messages d))),
                      d\<lparr>messages := filter (\<lambda>m. msg_roomId m \<noteq> rid) (messages d)\<rparr>))"

section \<open>Query builder\<close>

text \<open>
  \<^verbatim>\<open>Message.find(filter)\<close> builds a query; \<^verbatim>\<open>sort\<close> and \<^verbatim>\<open>limit\<close> record options on it and
  nothing runs until the query is awaited. The sort option is an object keyed by field:
  a second \<^verbatim>\<open>sort\<close> on the same field replaces the direction the first one stored. On
  execution the store filters, sorts, then limits, whatever the order of the builder
  calls. The store fixes no order among documents with equal sort keys; the model keeps
  them in insertion order, in both directions, which is one order the store may return.
\<close>

datatype sort_dir = Asc | Desc

record msg_query =
  q_filter :: room_id
  q_sort :: "sort_dir option"
  q_limit :: "nat option"

definition Message_find :: "room_id \<Rightarrow> msg_query" where
  "Message_find rid = \<lparr>q_filter = rid, q_sort = None, q_limit = None\<rparr>"

definition Query_sort :: "sort_dir \<Rightarrow> msg_query \<Rightarrow> msg_query" where
  "Query_sort dir q = q\<lparr>q_sort := Some dir\<rparr>"

definition Query_limit :: "nat \<Rightarrow> msg_query \<Rightarrow> msg_query" where
  "Query_limit n q = q\<lparr>q_limit := Some n\<rparr>"

fun sort_messages :: "sort_dir option \<Rightarrow> message list \<Rightarrow> message list" where
  "sort_messages None ms = ms"
| "sort_messages (Some Asc) ms = sort_key msg_timestamp ms"
| "sort_messages (Some Desc) ms = rev (sort_key msg_timestamp (rev ms))"

fun limit_messages :: "nat option \<Rightarrow> message list \<Rightarrow> message list" where
  "limit_messages None ms = ms"
| "limit_messages (Some n) ms = take n ms"

definition room_messages :: "room_id \<Rightarrow> db \<Rightarrow> message list" where
  "room_messages rid d = filter (\<lambda>m. msg_roomId m = rid) (messages d)"

definition run_query :: "msg_query \<Rightarrow> db \<Rightarrow> message list" where
  "run_query q d = limit_messages (q_limit q) (sort_messages (q_sort q) (room_messages (q_filter q) d))"

definition Query_exec :: "msg_query \<Rightarrow> db \<Rightarrow> message list store_result" where
  "Query_exec q = store_call (\<lambda>d. (Inr (run_query q d), d))"

lemmas [store_defs] =
  validate_message_def validate_room_def find_room_def Room_findOne_def same_doc_def
  same_version_def next_version_def insert_room_def push_room_def assign_room_def
  check_room_def Room_save_def Room_deleteOne_def
  Message_save_def Message_deleteMany_def Message_find_def Query_sort_def Query_limit_def
  room_messages_def run_query_def Query_exec_def

section \<open>The fault schedule\<close>

lemma store_call_no_faults [simp]: "faults d = [] \<Longrightarrow> store_call f d = f d"
  by (simp add: store_call_def)

lemma store_call_fault [simp]:
  "faults d = True # bs \<Longrightarrow> store_call f d = (Inl StoreUnavailable, d\<lparr>faults := bs\<rparr>)"
  by (simp add: store_call_def)

lemma store_call_pass [simp]:
  "faults d = False # bs \<Longrightarrow> store_call f d = f (d\<lparr>faults := bs\<rparr>)"
  by (simp add: store_call_def)

text \<open>
  A property that the operation keeps, and that does not look at the schedule, survives
  the call whether it throws or not.
\<close>

lemma store_call_cases [consumes 1, case_names Fault Pass]:
  assumes "store_call f d = (res, d')"
    and "\<And>bs. faults d = True # bs \<Longrightarrow> res = Inl StoreUnavailable \<Longrightarrow> d' = d\<lparr>faults := bs\<rparr> \<Longrightarrow> P"
    and "\<And>d0. rooms d0 = rooms d \<Longrightarrow> messages d0 = messages d \<Longrightarrow> next_oid d0 = next_oid d \<Longrightarrow>
           faults d0 = tl (faults d) \<Longrightarrow> f d0 = (res, d') \<Longrightarrow> P"
  shows P
proof (cases "faults d")
  case Nil
  with assms(1) have "f d = (res, d')" by simp
  with Nil show ?thesis by (intro assms(3) [of d]) simp_all
next
  case (Cons b bs)
  show ?thesis
  proof (cases b)
    case True
    with Cons assms(1) show ?thesis by (intro assms(2) [of bs]) simp_all
  next
    case False
    with Cons assms(1) have "f (d\<lparr>faults := bs\<rparr>) = (res, d')" by simp
    with Cons show ?thesis by (intro assms(3) [of "d\<lparr>faults := bs\<rparr>"]) simp_all
  qed
qed


section \<open>Calls on a store that does not fail\<close>

lemma Room_findOne_ok:
  "faults d = [] \<Longrightarrow> Room_findOne rid d = (Inr (find_room rid d), d)"
  by (simp add: Room_findOne_def)

lemma Room_save_ok:
  "faults d = [] \<Longrightarrow> validate_room r \<Longrightarrow> Room_save c r d = send_change c r d"
  by (simp add: Room_save_def)

lemma Room_deleteOne_ok:
  "faults d = [] \<Longrightarrow>
     Room_deleteOne rid d =
       (Inr (), d\<lparr>rooms := delete_first (\<lambda>r. room_roomId r = rid) (rooms d)\<rparr>)"
  by (simp add: Room_deleteOne_def)

lemma Message_save_ok:
  "faults d = [] \<Longrightarrow> validate_message m \<Longrightarrow>
     Message_save m d = (Inr m, d\<lparr>messages := messages d @ [m]\<rparr>)"
  by (simp add: Message_save_def)

lemma Message_deleteMany_ok:
  "faults d = [] \<Longrightarrow>
     Message_deleteMany rid d =
       (Inr (length (room_messages rid d)),
        d\<lparr>messages := filter (\<lambda>m. msg_roomId m \<noteq> rid) (messages d)\<rparr>)"
  by (simp add: Message_deleteMany_def room_messages_def)

lemma Query_exec_ok: "faults d = [] \<Longrightarrow> Query_exec q d = (Inr (run_query q d), d)"
  by (simp add: Query_exec_def)

lemmas store_ok =
  Room_findOne_ok Room_save_ok Room_deleteOne_ok Message_save_ok Message_deleteMany_ok
  Query_exec_ok

section \<open>Looking a room up after a change\<close>

definition participants_of :: "room_id \<Rightarrow> db \<Rightarrow> username list option" where
  "participants_of rid d = map_option room_participants (find_room rid d)"

lemma find_room_SomeD: "find_room rid d = Some r \<Longrightarrow> r \<in> set (rooms d) \<and> room_roomId r = rid"
  unfolding find_room_def by (rule find_key_SomeD)

lemma find_room_None_iff: "find_room rid d = None \<longleftrightarrow> rid \<notin> room_roomId ` set (rooms d)"
  unfolding find_room_def by (rule find_key_None_iff)

lemma find_room_frame [simp]:
  "find_room rid (d\<lparr>messages := ms\<rparr>) = find_room rid d"
  "find_room rid (d\<lparr>next_oid := n\<rparr>) = find_room rid d"
  "find_room rid (d\<lparr>faults := bs\<rparr>) = find_room rid d"
  by (simp_all add: find_room_def)

lemma find_room_cong: "rooms d' = rooms d \<Longrightarrow> find_room rid d' = find_room rid d"
  by (simp add: find_room_def)

lemma find_room_insert:
  "find_room (room_roomId r) d = None \<Longrightarrow> rooms d' = rooms d @ [r] \<Longrightarrow>
     find_room rid d' = (if rid = room_roomId r then Some r else find_room rid d)"
  by (auto simp: find_room_def find_key_append split: option.splits)

lemma find_room_update:
  assumes "find_room rid d = Some r0"
    and P: "P r0" "\<And>x. P x \<Longrightarrow> room_roomId x = rid"
    and f: "\<And>x. room_roomId (f x) = room_roomId x"
    and d': "rooms d' = update_first P f (rooms d)"
  shows "find_room rid' d' = (if rid' = rid then Some (f r0) else find_room rid' d)"
  using assms(1) unfolding find_room_def d'
  by (rule find_key_update_first) (use P f in auto)

lemma find_room_delete:
  "distinct (map room_roomId (rooms d)) \<Longrightarrow>
     rooms d' = delete_first (\<lambda>r. room_roomId r = rid) (rooms d) \<Longrightarrow>
     find_room rid' d' = (if rid' = rid then None else find_room rid' d)"
  by (auto simp: find_room_def delete_first_key_filter find_key_filter_same find_key_filter_other)

lemmas find_room_after = find_room_insert find_room_update find_room_delete

section \<open>Well-formed stores\<close>

text \<open>
  What the schema and the handlers keep true of the collections: room ids are unique
  (the unique index), every room has its required id and a non-empty participant list
  without duplicates, every message has its required fields, and the object ids of the
  rooms and of the messages are unique and ones the generator has already passed.
\<close>

definition room_ok :: "room \<Rightarrow> bool" where
  "room_ok r \<longleftrightarrow> validate_room r \<and> room_participants r \<noteq> [] \<and> distinct (room_participants r)"

definition message_ok :: "db \<Rightarrow> message \<Rightarrow> bool" where
  "message_ok d m \<longleftrightarrow> validate_message m \<and> msg_id m < next_oid d"

definition db_inv :: "db \<Rightarrow> bool" where
  "db_inv d \<longleftrightarrow>
     distinct (map room_roomId (rooms d)) \<and> distinct (map room_oid (rooms d)) \<and>
     (\<forall>r \<in> set (rooms d). room_ok r \<and> room_oid r < next_oid d) \<and>
     distinct (map msg_id (messages d)) \<and> (\<forall>m \<in> set (messages d). message_ok d m)"

lemmas [inv_defs] = room_ok_def message_ok_def db_inv_def

lemma db_inv_empty: "db_inv empty_db"
  by (simp add: db_inv_def empty_db_def)

lemma db_inv_faults [simp]: "db_inv (d\<lparr>faults := bs\<rparr>) = db_inv d"
  by (simp add: db_inv_def message_ok_def)

lemma db_inv_frame:
  "db_inv d \<Longrightarrow> rooms d' = rooms d \<Longrightarrow> messages d' = messages d \<Longrightarrow>
     next_oid d' = next_oid d \<Longrightarrow> db_inv d'"
  by (simp add: db_inv_def message_ok_def)

lemma db_inv_roomsD:
  "db_inv d \<Longrightarrow> distinct (map room_roomId (rooms d))"
  "db_inv d \<Longrightarrow> r \<in> set (rooms d) \<Longrightarrow> room_ok r"
  "db_inv d \<Longrightarrow> distinct (map room_oid (rooms d))"
  "db_inv d \<Longrightarrow> r \<in> set (rooms d) \<Longrightarrow> room_oid r < next_oid d"
  by (simp_all add: db_inv_def)

lemma db_inv_messages_filter: "db_inv d \<Longrightarrow> db_inv (d\<lparr>messages := filter P (messages d)\<rparr>)"
  by (simp add: db_inv_def message_ok_def distinct_map_filter)

lemma db_inv_next_oid: "db_inv d \<Longrightarrow> db_inv (d\<lparr>next_oid := Suc (next_oid d)\<rparr>)"
  by (auto simp: db_inv_def message_ok_def less_Suc_eq)

lemma db_inv_messages_snoc:
  assumes "db_inv d" "message_ok d m" "msg_id m \<notin> msg_id ` set (messages d)"
  shows "db_inv (d\<lparr>messages := messages d @ [m]\<rparr>)"
  using assms by (simp add: db_inv_def message_ok_def)

section \<open>What each store call returns and changes\<close>

text \<open>A call that throws changes no collection.\<close>

lemma store_call_Inl_frame:
  assumes "store_call f d = (Inl e, d')"
    and "\<And>d0 d1. f d0 = (Inl e, d1) \<Longrightarrow> rooms d1 = rooms d0 \<and> messages d1 = messages d0 \<and>
           next_oid d1 = next_oid d0"
  shows "rooms d' = rooms d \<and> messages d' = messages d \<and> next_oid d' = next_oid d"
  using assms(1)
proof (cases rule: store_call_cases)
  case (Fault bs)
  then show ?thesis by simp
next
  case (Pass d0)
  with assms(2) [of d0 d'] show ?thesis by simp
qed

lemma Room_findOne_result:
  assumes "Room_findOne rid d = (res, d')"
  shows "rooms d' = rooms d \<and> messages d' = messages d \<and> next_oid d' = next_oid d \<and>
         (res = Inl StoreUnavailable \<or> res = Inr (find_room rid d))"
  using assms unfolding Room_findOne_def
  by (cases rule: store_call_cases) (auto simp: find_room_def)

lemma Room_findOne_Some:
  assumes "Room_findOne rid d = (Inr (Some r), d')"
  shows "find_room rid d = Some r" "find_room rid d' = Some r" "r \<in> set (rooms d')"
    "room_roomId r = rid" "rooms d' = rooms d" "messages d' = messages d"
    "next_oid d' = next_oid d"
proof -
  from Room_findOne_result [OF assms] show "find_room rid d = Some r" "rooms d' = rooms d"
    "messages d' = messages d" "next_oid d' = next_oid d"
    by simp_all
  then show "find_room rid d' = Some r" "r \<in> set (rooms d')" "room_roomId r = rid"
    by (auto simp: find_room_def dest: find_key_SomeD)
qed

lemma Room_findOne_None:
  assumes "Room_findOne rid d = (Inr None, d')"
  shows "find_room rid d = None" "rid \<notin> room_roomId ` set (rooms d')" "rooms d' = rooms d"
    "messages d' = messages d" "next_oid d' = next_oid d"
proof -
  from Room_findOne_result [OF assms] show "find_room rid d = None" "rooms d' = rooms d"
    "messages d' = messages d" "next_oid d' = next_oid d"
    by simp_all
  then show "rid \<notin> room_roomId ` set (rooms d')" by (simp add: find_room_None_iff)
qed

text \<open>
  The change a save sends, once the schedule lets the call through: \<open>d0\<close> is the store
  with the flag of the call consumed.
\<close>

lemma Room_save_sent:
  assumes "Room_save c r d = (Inr r', d')"
  obtains d0 where "validate_room r" "rooms d0 = rooms d" "messages d0 = messages d"
    "next_oid d0 = next_oid d" "send_change c r d0 = (Inr r', d')"
proof -
  from assms have v: "validate_room r" and c: "store_call (send_change c r) d = (Inr r', d')"
    by (auto simp: Room_save_def split: if_splits)
  from c v that show ?thesis by (cases rule: store_call_cases) auto
qed

lemma send_change_frame:
  assumes "send_change c r d = (res, d')"
  shows "messages d' = messages d \<and> next_oid d' = next_oid d \<and> faults d' = faults d"
  using assms
  by (cases c)
     (auto simp: insert_room_def push_room_def assign_room_def check_room_def split: if_splits)

lemma send_change_Inl:
  "send_change c r d = (Inl e, d') \<Longrightarrow> d' = d"
  by (cases c)
     (auto simp: insert_room_def push_room_def assign_room_def check_room_def split: if_splits)

lemma Room_save_Inr:
  assumes "Room_save c r d = (Inr r', d')"
  shows "validate_room r \<and> messages d' = messages d \<and> next_oid d' = next_oid d \<and>
         room_oid r' = room_oid r \<and> room_roomId r' = room_roomId r \<and>
         room_participants r' = room_participants r \<and> room_createdAt r' = room_createdAt r"
proof -
  from assms obtain d0 where "validate_room r" "messages d0 = messages d"
    "next_oid d0 = next_oid d" and c: "send_change c r d0 = (Inr r', d')"
    by (rule Room_save_sent)
  moreover from c have "r' = r \<or> r' = next_version r"
    by (cases c)
       (auto simp: insert_room_def push_room_def assign_room_def check_room_def
          split: if_splits)
  ultimately show ?thesis using send_change_frame [OF c] by (auto simp: next_version_def)
qed

lemma Room_save_Created:
  assumes "Room_save Created r d = (Inr r', d')"
  shows "r' = r" "room_roomId r \<notin> room_roomId ` set (rooms d)" "rooms d' = rooms d @ [r]"
  using assms by (auto elim!: Room_save_sent simp: insert_room_def split: if_splits)

lemma Room_save_Created_find:
  assumes "Room_save Created r d = (Inr r', d')"
  shows "find_room rid d' = (if rid = room_roomId r then Some r' else find_room rid d)"
  using Room_save_Created [OF assms] find_room_insert [of r d d' rid]
  by (simp add: find_room_None_iff)

text \<open>
  A handler that saves right after it has read holds the stored document \<open>r0\<close>, with the
  participants it has pushed or assigned. The save then changes that document, and
  what is stored afterwards is the handler's copy.
\<close>

definition fresh_change :: "room_change \<Rightarrow> room \<Rightarrow> username list \<Rightarrow> bool" where
  "fresh_change c r0 ps \<longleftrightarrow>
     (case c of
        Created \<Rightarrow> False
      | Pushed u \<Rightarrow> ps = room_participants r0 @ [u]
      | Assigned prior \<Rightarrow> prior = room_participants r0)"

lemma send_change_fresh:
  assumes "r0 \<in> set (rooms d)" "fresh_change c r0 ps"
  shows "send_change c (r0\<lparr>room_participants := ps\<rparr>) d =
           (if c = Assigned ps then (Inr r0, d)
            else (Inr (next_version (r0\<lparr>room_participants := ps\<rparr>)),
                  d\<lparr>rooms := update_first
                       (if c = Assigned (room_participants r0) then same_version r0 else same_doc r0)
                       (\<lambda>x. next_version (x\<lparr>room_participants :=
                              (case c of Pushed u \<Rightarrow> room_participants x @ [u] | _ \<Rightarrow> ps)\<rparr>))
                       (rooms d)\<rparr>))"
proof -
  from assms(1) have "list_ex (same_doc r0) (rooms d)" "list_ex (same_version r0) (rooms d)"
    by (auto simp: list_ex_iff same_doc_def same_version_def)
  with assms(2) show ?thesis
    by (cases c)
       (auto simp: fresh_change_def push_room_def assign_room_def check_room_def same_doc_def
          same_version_def)
qed

lemma Room_save_fresh:
  assumes "find_room rid d = Some r0" "fresh_change c r0 ps"
    and "Room_save c (r0\<lparr>room_participants := ps\<rparr>) d = (Inr r', d')"
  shows "find_room rid' d' = (if rid' = rid then Some r' else find_room rid' d)"
proof -
  let ?r = "r0\<lparr>room_participants := ps\<rparr>"
  from assms(3) obtain d0 where d0: "rooms d0 = rooms d"
    and c: "send_change c ?r d0 = (Inr r', d')"
    by (rule Room_save_sent)
  from assms(1) d0 have f: "find_room x d0 = find_room x d" for x
    by (simp add: find_room_def)
  from assms(1) d0 have r0: "r0 \<in> set (rooms d0)" "room_roomId r0 = rid"
    by (auto dest: find_room_SomeD)
  show ?thesis
  proof (cases "c = Assigned ps")
    case True
    with c assms(1) f show ?thesis
      unfolding send_change_fresh [OF r0(1) assms(2)] by auto
  next
    case False
    let ?P = "if c = Assigned (room_participants r0) then same_version r0 else same_doc r0"
    let ?f = "\<lambda>x. next_version (x\<lparr>room_participants :=
               (case c of Pushed u \<Rightarrow> room_participants x @ [u] | _ \<Rightarrow> ps)\<rparr>)"
    from False c have r': "r' = next_version ?r" and u: "rooms d' = update_first ?P ?f (rooms d0)"
      unfolding send_change_fresh [OF r0(1) assms(2)] by auto
    have "find_room rid' d' = (if rid' = rid then Some (?f r0) else find_room rid' d0)"
    proof (rule find_room_update [where P = ?P and f = ?f])
      show "find_room rid d0 = Some r0" using assms(1) by (simp add: f)
      show "?P r0" by (simp add: same_doc_def same_version_def)
      show "room_roomId x = rid" if "?P x" for x
        using that r0(2) by (simp add: same_doc_def same_version_def split: if_splits)
      show "room_roomId (?f x) = room_roomId x" for x by (simp add: next_version_def)
      show "rooms d' = update_first ?P ?f (rooms d0)" by fact
    qed
    moreover from assms(2) have "?f r0 = r'"
      unfolding r' by (cases c) (simp_all add: fresh_change_def)
    ultimately show ?thesis by (simp add: f)
  qed
qed

lemma Room_save_fresh_ok:
  assumes "faults d = []" "find_room rid d = Some r0" "rid \<noteq> []" "fresh_change c r0 ps"
  shows "\<exists>r' d'. Room_save c (r0\<lparr>room_participants := ps\<rparr>) d = (Inr r', d') \<and> faults d' = []"
proof -
  from assms(2) have r0: "r0 \<in> set (rooms d)" "room_roomId r0 = rid"
    by (auto dest: find_room_SomeD)
  with assms(1,3) show ?thesis
    by (simp add: Room_save_ok validate_room_def send_change_fresh [OF r0(1) assms(4)])
qed

lemma Room_save_Inl:
  assumes "Room_save c r d = (Inl e, d')"
  shows "rooms d' = rooms d \<and> messages d' = messages d \<and> next_oid d' = next_oid d"
proof (cases "validate_room r")
  case False
  with assms show ?thesis by (simp add: Room_save_def)
next
  case True
  with assms have "store_call (send_change c r) d = (Inl e, d')"
    by (simp add: Room_save_def)
  then show ?thesis
    by (rule store_call_Inl_frame) (auto dest: send_change_Inl)
qed

lemma Room_deleteOne_result:
  assumes "Room_deleteOne rid d = (res, d')"
  shows "messages d' = messages d \<and> next_oid d' = next_oid d \<and>
         (res = Inl StoreUnavailable \<and> rooms d' = rooms d \<or>
          res = Inr () \<and> rooms d' = delete_first (\<lambda>r. room_roomId r = rid) (rooms d))"
  using assms unfolding Room_deleteOne_def
  by (cases rule: store_call_cases) auto

lemma Message_save_Inr:
  assumes "Message_save m d = (Inr m', d')"
  shows "m' = m \<and> validate_message m \<and> rooms d' = rooms d \<and> next_oid d' = next_oid d \<and>
         messages d' = messages d @ [m]"
proof -
  from assms have v: "validate_message m"
    and c: "store_call (\<lambda>d. (Inr m, d\<lparr>messages := messages d @ [m]\<rparr>)) d = (Inr m', d')"
    by (auto simp: Message_save_def split: if_splits)
  from c show ?thesis
    by (cases rule: store_call_cases) (use v in auto)
qed

lemma Message_save_Inl:
  assumes "Message_save m d = (Inl e, d')"
  shows "rooms d' = rooms d \<and> messages d' = messages d \<and> next_oid d' = next_oid d"
proof (cases "validate_message m")
  case False
  with assms show ?thesis by (simp add: Message_save_def)
next
  case True
  with assms have "store_call (\<lambda>d. (Inr m, d\<lparr>messages := messages d @ [m]\<rparr>)) d = (Inl e, d')"
    by (simp add: Message_save_def)
  then show ?thesis by (rule store_call_Inl_frame) auto
qed

lemma Message_deleteMany_result:
  assumes "Message_deleteMany rid d = (res, d')"
  shows "rooms d' = rooms d \<and> next_oid d' = next_oid d \<and>
         (res = Inl StoreUnavailable \<and> messages d' = messages d \<or>
          res = Inr (length (room_messages rid d)) \<and>
          messages d' = filter (\<lambda>m. msg_roomId m \<noteq> rid) (messages d))"
  using assms unfolding Message_deleteMany_def room_messages_def
  by (cases rule: store_call_cases) auto

lemma Query_exec_result:
  assumes "Query_exec q d = (res, d')"
  shows "rooms d' = rooms d \<and> messages d' = messages d \<and> next_oid d' = next_oid d \<and>
         (res = Inl StoreUnavailable \<or> res = Inr (run_query q d))"
  using assms unfolding Query_exec_def
  by (cases rule: store_call_cases) (auto simp: run_query_def room_messages_def)

section \<open>Store calls keep the store well formed\<close>

lemma Room_findOne_inv: "db_inv d \<Longrightarrow> Room_findOne rid d = (res, d') \<Longrightarrow> db_inv d'"
  by (drule Room_findOne_result) (auto elim: db_inv_frame)

lemma Query_exec_inv: "db_inv d \<Longrightarrow> Query_exec q d = (res, d') \<Longrightarrow> db_inv d'"
  by (drule Query_exec_result) (auto elim: db_inv_frame)

lemma db_inv_eqI:
  assumes "db_inv d" "distinct (map room_roomId (rooms d'))" "distinct (map room_oid (rooms d'))"
    and "\<forall>r \<in> set (rooms d'). room_ok r \<and> room_oid r < next_oid d"
    and "messages d' = messages d" "next_oid d' = next_oid d"
  shows "db_inv d'"
  using assms by (simp add: db_inv_def message_ok_def)

lemma db_inv_update_first:
  assumes "db_inv d" "rooms d' = update_first P f (rooms d)"
    and "\<And>x. room_roomId (f x) = room_roomId x" "\<And>x. room_oid (f x) = room_oid x"
    and "\<And>x. x \<in> set (rooms d) \<Longrightarrow> P x \<Longrightarrow> room_ok (f x)"
    and "messages d' = messages d" "next_oid d' = next_oid d"
  shows "db_inv d'"
proof (rule db_inv_eqI [OF assms(1) _ _ _ assms(6,7)])
  show "distinct (map room_roomId (rooms d'))" "distinct (map room_oid (rooms d'))"
    using assms(1) by (simp_all add: assms(2-4) map_key_update_first db_inv_roomsD)
  show "\<forall>r \<in> set (rooms d'). room_ok r \<and> room_oid r < next_oid d"
    using set_update_first_subset [of P f "rooms d"] assms(1,4,5)
    unfolding assms(2) by (fastforce dest: db_inv_roomsD)
qed

text \<open>
  A save keeps the store well formed when the handler's copy is well formed: a new room
  carries an id the generator has passed and no stored room has, and a copy that was
  read lists at least one participant and none twice.
\<close>

lemma Room_save_Created_inv:
  assumes "db_inv d" "room_participants r \<noteq> []" "distinct (room_participants r)"
    and "room_oid r < next_oid d" "room_oid r \<notin> room_oid ` set (rooms d)"
    and save: "Room_save Created r d = (res, d')"
  shows "db_inv d'"
proof (cases res)
  case (Inl e)
  with save have "rooms d' = rooms d \<and> messages d' = messages d \<and> next_oid d' = next_oid d"
    by (auto dest: Room_save_Inl)
  with assms(1) show ?thesis by (auto elim: db_inv_frame)
next
  case (Inr r')
  note R = Room_save_Created [OF save [unfolded Inr]] Room_save_Inr [OF save [unfolded Inr]]
  with assms(1-5) show ?thesis
    by (intro db_inv_eqI [OF assms(1)]) (auto simp: room_ok_def dest: db_inv_roomsD)
qed

lemma Room_save_fresh_inv:
  assumes "db_inv d" "r0 \<in> set (rooms d)" "fresh_change c r0 ps" "ps \<noteq> []" "distinct ps"
    and save: "Room_save c (r0\<lparr>room_participants := ps\<rparr>) d = (res, d')"
  shows "db_inv d'"
proof (cases res)
  case (Inl e)
  with save have "rooms d' = rooms d \<and> messages d' = messages d \<and> next_oid d' = next_oid d"
    by (auto dest: Room_save_Inl)
  with assms(1) show ?thesis by (auto elim: db_inv_frame)
next
  case (Inr r')
  let ?r = "r0\<lparr>room_participants := ps\<rparr>"
  from save Inr obtain d0 where d0: "rooms d0 = rooms d" "messages d0 = messages d"
    "next_oid d0 = next_oid d" and c: "send_change c ?r d0 = (Inr r', d')"
    by (auto elim: Room_save_sent)
  from assms(1) d0 have inv0: "db_inv d0" by (auto elim: db_inv_frame)
  from assms(2) d0 have r0: "r0 \<in> set (rooms d0)" by simp
  with inv0 have ok: "room_ok r0" by (auto dest: db_inv_roomsD)
  note F = send_change_frame [OF c]
  show ?thesis
  proof (cases "c = Assigned ps")
    case True
    with c inv0 show ?thesis unfolding send_change_fresh [OF r0 assms(3)] by simp
  next
    case False
    let ?P = "if c = Assigned (room_participants r0) then same_version r0 else same_doc r0"
    let ?f = "\<lambda>x. next_version (x\<lparr>room_participants :=
               (case c of Pushed u \<Rightarrow> room_participants x @ [u] | _ \<Rightarrow> ps)\<rparr>)"
    from False c have u: "rooms d' = update_first ?P ?f (rooms d0)"
      unfolding send_change_fresh [OF r0 assms(3)] by auto
    have one: "x = r0" if "x \<in> set (rooms d0)" "?P x" for x
      using that r0 inv0
      by (auto simp: same_doc_def same_version_def distinct_map split: if_splits
          dest!: db_inv_roomsD(3) dest: inj_onD)
    have ok': "room_ok (?f x)" if "x \<in> set (rooms d0)" "?P x" for x
      using one [OF that] ok assms(3-5)
      by (auto simp: next_version_def room_ok_def validate_room_def fresh_change_def
          split: room_change.splits)
    have "db_inv d'"
      by (rule db_inv_update_first [OF inv0 u _ _ ok'])
         (use F d0 in \<open>auto simp: next_version_def\<close>)
    then show ?thesis .
  qed
qed

lemma Room_deleteOne_inv:
  assumes "db_inv d" "Room_deleteOne rid d = (res, d')"
  shows "db_inv d'"
proof -
  note R = Room_deleteOne_result [OF assms(2)]
  then have sub: "set (rooms d') \<subseteq> set (rooms d)"
    using set_delete_first_subset [of "\<lambda>r. room_roomId r = rid" "rooms d"] by auto
  from R assms(1) have "distinct (map room_roomId (rooms d'))" "distinct (map room_oid (rooms d'))"
    by (auto simp: distinct_map_delete_first db_inv_roomsD)
  with sub assms(1) R show ?thesis
    by (intro db_inv_eqI [OF assms(1)]) (auto dest: db_inv_roomsD)
qed

lemma Message_deleteMany_inv:
  assumes "db_inv d" "Message_deleteMany rid d = (res, d')"
  shows "db_inv d'"
proof -
  note R = Message_deleteMany_result [OF assms(2)]
  then have "set (messages d') \<subseteq> set (messages d)" "distinct (map msg_id (messages d'))"
    using assms(1) by (auto simp: db_inv_def distinct_map_filter)
  with R assms(1) show ?thesis
    unfolding db_inv_def message_ok_def by auto
qed

lemma Message_save_inv:
  assumes "db_inv d" "msg_id m < next_oid d" "msg_id m \<notin> msg_id ` set (messages d)"
    and "Message_save m d = (res, d')"
  shows "db_inv d'"
proof (cases res)
  case (Inl e)
  with assms(4) have "rooms d' = rooms d \<and> messages d' = messages d \<and> next_oid d' = next_oid d"
    by (auto dest: Message_save_Inl)
  with assms(1) show ?thesis by (auto elim: db_inv_frame)
next
  case (Inr m')
  note R = Message_save_Inr [OF assms(4) [unfolded Inr]]
  with assms(1-3) show ?thesis
    unfolding db_inv_def message_ok_def by simp
qed

lemmas store_inv =
  Room_findOne_inv Room_save_Created_inv Room_save_fresh_inv Room_deleteOne_inv
  Message_save_inv Message_deleteMany_inv Query_exec_inv

end
