(* ===== verification/Transport.thy ===== *)
theory Transport
  imports Persistence
begin

text \<open>
  The transport the server talks through: the connected sockets, the broadcast groups
  each socket is subscribed to, the two fields \<^verbatim>\<open>src/server.js\<close> stores on a socket when it
  joins (\<^verbatim>\<open>socket.roomId\<close>, \<^verbatim>\<open>socket.username\<close>), the outbound events of the protocol, and
  the three ways of emitting one: to the socket itself, to every member of a group, and
  to every member of a group but the sender. An emission is a list of deliveries
  \<open>(recipient, event)\<close>, in the order the sockets connected.
\<close>

section \<open>Outbound events\<close>

datatype out_event =
    RoomJoined room_id "username list" "message list"
  | UserJoined username "username list"
  | NewMessage object_id room_id username string timestamp
  | UserTyping username bool
  | RoomChatCleared
  | UserLeft username "username list"
  | ErrorEvent string

type_synonym emit = "socket_id \<times> out_event"

section \<open>Sockets\<close>

record socket =
  sock_rooms :: "room_id list"
  sock_roomId :: "room_id option"
  sock_username :: "username option"

type_synonym transport = "(socket_id \<times> socket) list"

text \<open>
  A socket starts in no group of the application. The group the library gives every
  socket under its own id is not part of \<open>sock_rooms\<close>: the handlers reach a single socket
  with \<^verbatim>\<open>socket.emit\<close>, modelled as a delivery to that socket.
\<close>

definition new_socket :: socket where
  "new_socket = \<lparr>sock_rooms = [], sock_roomId = None, sock_username = None\<rparr>"

definition connected :: "socket_id \<Rightarrow> transport \<Rightarrow> bool" where
  "connected sid t \<longleftrightarrow> sid \<in> fst ` set t"

definition members :: "room_id \<Rightarrow> transport \<Rightarrow> socket_id list" where
  "members rid t = map fst (filter (\<lambda>p. rid \<in> set (sock_rooms (snd p))) t)"

definition socket_join :: "socket_id \<Rightarrow> room_id \<Rightarrow> transport \<Rightarrow> transport" where
  "socket_join sid rid =
     AList.map_entry sid (\<lambda>s. s\<lparr>sock_rooms := List.insert rid (sock_rooms s)\<rparr>)"

section \<open>Emitting\<close>

definition socket_emit :: "socket_id \<Rightarrow> out_event \<Rightarrow> emit list" where
  "socket_emit sid ev = [(sid, ev)]"

definition io_to_emit :: "room_id \<Rightarrow> out_event \<Rightarrow> transport \<Rightarrow> emit list" where
  "io_to_emit rid ev t = map (\<lambda>r. (r, ev)) (members rid t)"

definition socket_to_emit :: "socket_id \<Rightarrow> room_id \<Rightarrow> out_event \<Rightarrow> transport \<Rightarrow> emit list" where
  "socket_to_emit sid rid ev t = map (\<lambda>r. (r, ev)) (filter (\<lambda>r. r \<noteq> sid) (members rid t))"

definition received :: "socket_id \<Rightarrow> emit list \<Rightarrow> out_event list" where
  "received sid es = map snd (filter (\<lambda>e. fst e = sid) es)"

lemmas [transport_defs] =
  new_socket_def connected_def members_def socket_join_def socket_emit_def io_to_emit_def
  socket_to_emit_def received_def

section \<open>Membership of a broadcast group\<close>

lemma members_Nil [simp]: "members rid [] = []"
  by (simp add: members_def)

lemma members_Cons:
  "members rid (p # t) =
     (if rid \<in> set (sock_rooms (snd p)) then fst p # members rid t else members rid t)"
  by (simp add: members_def)

lemma members_append [simp]: "members rid (t @ u) = members rid t @ members rid u"
  by (simp add: members_def)

lemma members_subset_connected: "sid \<in> set (members rid t) \<Longrightarrow> connected sid t"
  by (auto simp: members_def connected_def)

lemma distinct_members: "distinct (map fst t) \<Longrightarrow> distinct (members rid t)"
  by (simp add: members_def distinct_map_filter)

lemma mem_members_iff:
  "distinct (map fst t) \<Longrightarrow>
     sid \<in> set (members rid t) \<longleftrightarrow> (\<exists>s. map_of t sid = Some s \<and> rid \<in> set (sock_rooms s))"
  by (induction t) (auto simp: members_Cons rev_image_eqI)

lemma members_delete: "members rid (AList.delete sid t) = filter (\<lambda>r. r \<noteq> sid) (members rid t)"
  by (induction t) (auto simp: members_Cons)

lemma set_members_map_entry:
  "distinct (map fst t) \<Longrightarrow> map_of t sid = Some s \<Longrightarrow>
     set (members rid (AList.map_entry sid f t)) =
       (set (members rid t) - {sid}) \<union> (if rid \<in> set (sock_rooms (f s)) then {sid} else {})"
proof (induction t)
  case Nil
  then show ?case by simp
next
  case (Cons p t)
  show ?case
  proof (cases "fst p = sid")
    case True
    with Cons.prems have "sid \<notin> set (members rid t)" "snd p = s"
      by (auto dest: members_subset_connected simp: connected_def)
    with True show ?thesis by (auto simp: members_Cons)
  next
    case False
    with Cons show ?thesis by (auto simp: members_Cons)
  qed
qed

lemma set_members_socket_join:
  "distinct (map fst t) \<Longrightarrow> connected sid t \<Longrightarrow>
     set (members rid (socket_join sid rid' t)) =
       (if rid = rid' then insert sid (set (members rid t)) else set (members rid t))"
proof -
  assume d: "distinct (map fst t)" and c: "connected sid t"
  from c obtain s where s: "map_of t sid = Some s"
    by (cases "map_of t sid") (auto simp: connected_def map_of_eq_None_iff)
  from d have "sid \<in> set (members rid t) \<longleftrightarrow> rid \<in> set (sock_rooms s)"
    using s by (simp add: mem_members_iff)
  then show ?thesis
    unfolding socket_join_def set_members_map_entry [OF d s] by auto
qed

section \<open>Who receives an emission\<close>

lemma recipients_socket_emit [simp]: "map fst (socket_emit sid ev) = [sid]"
  by (simp add: socket_emit_def)

lemma recipients_io_to_emit [simp]: "map fst (io_to_emit rid ev t) = members rid t"
  by (simp add: io_to_emit_def comp_def)

lemma recipients_socket_to_emit [simp]:
  "map fst (socket_to_emit sid rid ev t) = filter (\<lambda>r. r \<noteq> sid) (members rid t)"
  by (simp add: socket_to_emit_def comp_def)

lemma events_io_to_emit: "e \<in> set (io_to_emit rid ev t) \<Longrightarrow> snd e = ev"
  by (auto simp: io_to_emit_def)

lemma events_socket_to_emit: "e \<in> set (socket_to_emit sid rid ev t) \<Longrightarrow> snd e = ev"
  by (auto simp: socket_to_emit_def)

lemma sender_not_in_socket_to_emit [simp]: "(sid, ev') \<notin> set (socket_to_emit sid rid ev t)"
  by (auto simp: socket_to_emit_def)

lemma socket_to_emit_delete_sender:
  "socket_to_emit sid rid ev (AList.delete sid t) = socket_to_emit sid rid ev t"
  by (simp add: socket_to_emit_def members_delete)

lemma received_append [simp]: "received sid (es @ fs) = received sid es @ received sid fs"
  by (simp add: received_def)

lemma received_io_to_emit:
  "distinct (map fst t) \<Longrightarrow>
     received sid (io_to_emit rid ev t) = (if sid \<in> set (members rid t) then [ev] else [])"
  using filter_eq_distinct [OF distinct_members, of t sid rid]
  by (auto simp: received_def io_to_emit_def filter_map comp_def)

lemma received_socket_to_emit_sender [simp]: "received sid (socket_to_emit sid rid ev t) = []"
  by (auto simp: received_def socket_to_emit_def filter_map comp_def filter_empty_conv)

lemma socket_to_emit_delete: "socket_to_emit sid rid ev t = io_to_emit rid ev (AList.delete sid t)"
  by (simp add: socket_to_emit_def io_to_emit_def members_delete)

lemma received_socket_to_emit:
  "distinct (map fst t) \<Longrightarrow>
     received r (socket_to_emit sid rid ev t) =
       (if r \<in> set (members rid t) \<and> r \<noteq> sid then [ev] else [])"
  by (simp add: socket_to_emit_delete received_io_to_emit distinct_delete members_delete)

lemma received_socket_emit [simp]:
  "received sid' (socket_emit sid ev) = (if sid' = sid then [ev] else [])"
  by (simp add: received_def socket_emit_def)

section \<open>Well-formed transports\<close>

text \<open>
  Socket ids are unique; a socket lists each of its groups once; its room and user are
  bound together or not at all; and a socket bound to a room is subscribed to it.
\<close>

definition socket_ok :: "socket \<Rightarrow> bool" where
  "socket_ok k \<longleftrightarrow>
     distinct (sock_rooms k) \<and> (sock_roomId k = None \<longleftrightarrow> sock_username k = None) \<and>
     (\<forall>rid. sock_roomId k = Some rid \<longrightarrow> rid \<in> set (sock_rooms k))"

definition transport_inv :: "transport \<Rightarrow> bool" where
  "transport_inv t \<longleftrightarrow> distinct (map fst t) \<and> (\<forall>p \<in> set t. socket_ok (snd p))"

lemmas [inv_defs] = socket_ok_def transport_inv_def

lemma socket_ok_new [simp]: "socket_ok new_socket"
  by (simp add: socket_ok_def new_socket_def)

lemma transport_inv_Nil [simp]: "transport_inv []"
  by (simp add: transport_inv_def)

lemma transport_inv_connect:
  "transport_inv t \<Longrightarrow> \<not> connected sid t \<Longrightarrow> transport_inv (t @ [(sid, new_socket)])"
  by (auto simp: transport_inv_def connected_def)

lemma transport_inv_delete: "transport_inv t \<Longrightarrow> transport_inv (AList.delete sid t)"
  unfolding transport_inv_def
  by (intro conjI) (simp add: distinct_delete, simp add: AList.delete_eq)

lemma map_entry_twice:
  "AList.map_entry k f (AList.map_entry k g t) = AList.map_entry k (f \<circ> g) t"
  by (induction t) auto

lemma snd_set_map_entry:
  "p \<in> set (AList.map_entry k f t) \<Longrightarrow> p \<in> set t \<or> (\<exists>v. (k, v) \<in> set t \<and> p = (k, f v))"
  by (induction t) (auto split: if_splits)

lemma transport_inv_map_entry:
  assumes "transport_inv t" "\<And>k. socket_ok k \<Longrightarrow> socket_ok (f k)"
  shows "transport_inv (AList.map_entry sid f t)"
  unfolding transport_inv_def
proof (intro conjI ballI)
  from assms(1) show "distinct (map fst (AList.map_entry sid f t))"
    by (simp add: transport_inv_def distinct_map_entry)
next
  fix p assume "p \<in> set (AList.map_entry sid f t)"
  then show "socket_ok (snd p)"
    using assms by (auto simp: transport_inv_def dest!: snd_set_map_entry)
qed

lemma transport_inv_socket_join: "transport_inv t \<Longrightarrow> transport_inv (socket_join sid rid t)"
  unfolding socket_join_def
  by (rule transport_inv_map_entry) (auto simp: socket_ok_def)

lemma connected_map_entry [simp]: "connected sid' (AList.map_entry sid f t) = connected sid' t"
  by (simp add: connected_def dom_map_entry)

lemma connected_socket_join [simp]: "connected sid' (socket_join sid rid t) = connected sid' t"
  by (simp add: socket_join_def)

lemma connected_delete [simp]:
  "connected sid' (AList.delete sid t) \<longleftrightarrow> sid' \<noteq> sid \<and> connected sid' t"
  by (auto simp: connected_def AList.delete_eq)

lemma connected_map_of: "connected sid t \<longleftrightarrow> map_of t sid \<noteq> None"
  by (simp add: connected_def map_of_eq_None_iff)

end
