(* ===== verification/Dispatcher.thy ===== *)
theory Dispatcher
  imports Transport
begin

text \<open>
  The event dispatcher of \<^verbatim>\<open>src/server.js\<close>: the handlers that \<^verbatim>\<open>io.on('connection')\<close>
  registers on every socket, one definition per handler, in the order of the source.
  A handler takes the server state (the store and the transport) and returns the
  deliveries it emits with the state it leaves. Each \<^verbatim>\<open>await\<close> is a store call of
  theory \<open>Persistence\<close>; a call that throws leaves the \<^verbatim>\<open>try\<close> block for the \<^verbatim>\<open>catch\<close>
  branch, and what the handler did before the throw stays done.
\<close>

section \<open>Server state\<close>

record server =
  store :: db
  sockets :: transport

definition init_server :: server where
  "init_server = \<lparr>store = empty_db, sockets = []\<rparr>"

text \<open>A new connection: a socket with no group and no bound room or user.\<close>

definition connection :: "socket_id \<Rightarrow> server \<Rightarrow> server" where
  "connection sid s =
     (if connected sid (sockets s) then s
      else s\<lparr>sockets := sockets s @ [(sid, new_socket)]\<rparr>)"

section \<open>clear-room-chat\<close>

definition clear_room_chat :: "socket_id \<Rightarrow> room_id \<Rightarrow> server \<Rightarrow> emit list \<times> server" where
  "clear_room_chat sid rid s =
     (case Message_deleteMany rid (store s) of
        (Inl e, d) \<Rightarrow> (socket_emit sid (ErrorEvent ''Failed to clear chat''), s\<lparr>store := d\<rparr>)
      | (Inr n, d) \<Rightarrow> (io_to_emit rid RoomChatCleared (sockets s), s\<lparr>store := d\<rparr>))"

section \<open>join-room\<close>

text \<open>
  \<^verbatim>\<open>new Room\<close> constructs the document in the handler: it draws the object id and takes
  the time for \<^verbatim>\<open>createdAt\<close>. Nothing is stored before \<^verbatim>\<open>save\<close>.
\<close>

definition new_Room :: "room_id \<Rightarrow> username \<Rightarrow> timestamp \<Rightarrow> db \<Rightarrow> room \<times> db" where
  "new_Room rid uname now d =
     (\<lparr>room_oid = next_oid d, room_roomId = rid, room_participants = [uname],
       room_createdAt = now, room_version = 0\<rparr>,
      d\<lparr>next_oid := Suc (next_oid d)\<rparr>)"

definition find_or_create_room ::
  "room_id \<Rightarrow> username \<Rightarrow> timestamp \<Rightarrow> db \<Rightarrow> room store_result" where
  "find_or_create_room rid uname now d =
     (case Room_findOne rid d of
        (Inl e, d1) \<Rightarrow> (Inl e, d1)
      | (Inr None, d1) \<Rightarrow>
          (case new_Room rid uname now d1 of (r, d2) \<Rightarrow> Room_save Created r d2)
      | (Inr (Some r), d1) \<Rightarrow>
          if uname \<in> set (room_participants r) then (Inr r, d1)
          else Room_save (Pushed uname)
                 (r\<lparr>room_participants := room_participants r @ [uname]\<rparr>) d1)"

definition bind_socket :: "socket_id \<Rightarrow> room_id \<Rightarrow> username \<Rightarrow> transport \<Rightarrow> transport" where
  "bind_socket sid rid uname t =
     AList.map_entry sid (\<lambda>s. s\<lparr>sock_roomId := Some rid, sock_username := Some uname\<rparr>)
       (socket_join sid rid t)"

definition recent_messages_query :: "room_id \<Rightarrow> msg_query" where
  "recent_messages_query rid =
     Query_sort Asc (Query_limit 50 (Query_sort Desc (Message_find rid)))"

definition join_room ::
  "socket_id \<Rightarrow> room_id \<Rightarrow> username \<Rightarrow> timestamp \<Rightarrow> server \<Rightarrow> emit list \<times> server" where
  "join_room sid rid uname now s =
     (case find_or_create_room rid uname now (store s) of
        (Inl e, d1) \<Rightarrow> (socket_emit sid (ErrorEvent ''Failed to join room''), s\<lparr>store := d1\<rparr>)
      | (Inr r, d1) \<Rightarrow>
          let t1 = bind_socket sid rid uname (sockets s) in
          (case Query_exec (recent_messages_query rid) d1 of
             (Inl e, d2) \<Rightarrow>
               (socket_emit sid (ErrorEvent ''Failed to join room''),
                \<lparr>store = d2, sockets = t1\<rparr>)
           | (Inr msgs, d2) \<Rightarrow>
               (socket_emit sid (RoomJoined rid (room_participants r) msgs) @
                socket_to_emit sid rid (UserJoined uname (room_participants r)) t1,
                \<lparr>store = d2, sockets = t1\<rparr>)))"

section \<open>send-message\<close>

definition new_Message ::
  "room_id \<Rightarrow> username \<Rightarrow> string \<Rightarrow> timestamp \<Rightarrow> db \<Rightarrow> message \<times> db" where
  "new_Message rid sender body now d =
     (\<lparr>msg_id = next_oid d, msg_roomId = rid, msg_sender = sender, msg_text = body,
       msg_timestamp = now\<rparr>,
      d\<lparr>next_oid := Suc (next_oid d)\<rparr>)"

definition send_message ::
  "socket_id \<Rightarrow> room_id \<Rightarrow> username \<Rightarrow> string \<Rightarrow> timestamp \<Rightarrow> server \<Rightarrow> emit list \<times> server" where
  "send_message sid rid sender body now s =
     (case new_Message rid sender body now (store s) of
        (m, d0) \<Rightarrow>
          (case Message_save m d0 of
             (Inl e, d1) \<Rightarrow>
               (socket_emit sid (ErrorEvent ''Failed to send message''), s\<lparr>store := d1\<rparr>)
           | (Inr m', d1) \<Rightarrow>
               (io_to_emit rid (NewMessage (msg_id m') rid sender body (msg_timestamp m'))
                  (sockets s),
                s\<lparr>store := d1\<rparr>)))"

section \<open>typing\<close>

definition typing :: "socket_id \<Rightarrow> room_id \<Rightarrow> username \<Rightarrow> bool \<Rightarrow> server \<Rightarrow> emit list \<times> server" where
  "typing sid rid uname is_typing s =
     (socket_to_emit sid rid (UserTyping uname is_typing) (sockets s), s)"

section \<open>disconnect\<close>

text \<open>
  The transport has removed the socket from its groups when the handler runs. The body
  of the \<^verbatim>\<open>try\<close> block is \<open>leave_room\<close>; its \<^verbatim>\<open>catch\<close> only logs, so a failed store call
  ends the handler without an emission.
\<close>

definition remove_participant :: "username \<Rightarrow> room \<Rightarrow> room" where
  "remove_participant uname r =
     r\<lparr>room_participants := filter (\<lambda>p. p \<noteq> uname) (room_participants r)\<rparr>"

definition leave_room ::
  "socket_id \<Rightarrow> room_id \<Rightarrow> username \<Rightarrow> transport \<Rightarrow> db \<Rightarrow> emit list \<times> db" where
  "leave_room sid rid uname t d =
     (case Room_findOne rid d of
        (Inl e, d1) \<Rightarrow> ([], d1)
      | (Inr None, d1) \<Rightarrow> ([], d1)
      | (Inr (Some r), d1) \<Rightarrow>
          let r' = remove_participant uname r in
          if length (room_participants r') = 0 then
            (case Room_deleteOne rid d1 of (res, d2) \<Rightarrow> ([], d2))
          else
            (case Room_save (Assigned (room_participants r)) r' d1 of
               (Inl e, d2) \<Rightarrow> ([], d2)
             | (Inr r'', d2) \<Rightarrow>
                 (socket_to_emit sid rid (UserLeft uname (room_participants r')) t, d2)))"

definition disconnect :: "socket_id \<Rightarrow> server \<Rightarrow> emit list \<times> server" where
  "disconnect sid s =
     (case map_of (sockets s) sid of
        None \<Rightarrow> ([], s)
      | Some sock \<Rightarrow>
          let t = AList.delete sid (sockets s) in
          (case (sock_roomId sock, sock_username sock) of
             (Some rid, Some uname) \<Rightarrow>
               if js_truthy (Some rid) \<and> js_truthy (Some uname) then
                 (case leave_room sid rid uname t (store s) of
                    (es, d) \<Rightarrow> (es, \<lparr>store = d, sockets = t\<rparr>))
               else ([], s\<lparr>sockets := t\<rparr>)
           | _ \<Rightarrow> ([], s\<lparr>sockets := t\<rparr>)))"

section \<open>Dispatch\<close>

datatype in_event =
    ClearRoomChat room_id
  | JoinRoom room_id username
  | SendMessage room_id username string
  | Typing room_id username bool
  | Disconnect

fun handle :: "socket_id \<Rightarrow> timestamp \<Rightarrow> in_event \<Rightarrow> server \<Rightarrow> emit list \<times> server" where
  "handle sid now (ClearRoomChat rid) s = clear_room_chat sid rid s"
| "handle sid now (JoinRoom rid uname) s = join_room sid rid uname now s"
| "handle sid now (SendMessage rid sender body) s = send_message sid rid sender body now s"
| "handle sid now (Typing rid uname is_typing) s = typing sid rid uname is_typing s"
| "handle sid now Disconnect s = disconnect sid s"

text \<open>
  The handlers are registered on a socket when it connects (lines 45-46) and exist as
  long as it does: an event of a socket that is not connected has no handler to run.
\<close>

definition dispatch :: "socket_id \<Rightarrow> timestamp \<Rightarrow> in_event \<Rightarrow> server \<Rightarrow> emit list \<times> server" where
  "dispatch sid now ev s = (if connected sid (sockets s) then handle sid now ev s else ([], s))"

lemmas [handler_defs] =
  connection_def clear_room_chat_def new_Room_def find_or_create_room_def bind_socket_def
  recent_messages_query_def join_room_def new_Message_def send_message_def typing_def
  remove_participant_def leave_room_def disconnect_def dispatch_def

section \<open>Well-formed servers\<close>

definition server_inv :: "server \<Rightarrow> bool" where
  "server_inv s \<longleftrightarrow> db_inv (store s) \<and> transport_inv (sockets s)"

lemmas [inv_defs] = server_inv_def

lemma server_inv_init: "server_inv init_server"
  by (simp add: server_inv_def init_server_def db_inv_empty)

lemma connection_inv: "server_inv s \<Longrightarrow> server_inv (connection sid s)"
  by (simp add: server_inv_def connection_def transport_inv_connect)

section \<open>join-room: the room record\<close>

text \<open>
  What a join promises for the participant list: a room that did not exist is created
  with the joining user alone, and a user already listed is not listed twice.
\<close>

definition add_participant :: "username \<Rightarrow> username list option \<Rightarrow> username list" where
  "add_participant u ps = (case ps of None \<Rightarrow> [u] | Some xs \<Rightarrow> if u \<in> set xs then xs else xs @ [u])"

lemma add_participant_mem [simp]: "u \<in> set (add_participant u ps)"
  by (simp add: add_participant_def split: option.splits)

lemma add_participant_distinct:
  "(\<And>xs. ps = Some xs \<Longrightarrow> distinct xs) \<Longrightarrow> distinct (add_participant u ps)"
  by (simp add: add_participant_def split: option.splits)

text \<open>
  The four ways through \<open>find_or_create_room\<close>: the lookup throws, the user is already
  listed, the room is created, or the user is pushed onto it.
\<close>

lemma find_or_create_room_cases [consumes 1, case_names Failed Listed Created Pushed]:
  assumes "find_or_create_room rid u now d = (res, d')"
    and "\<And>e. Room_findOne rid d = (Inl e, d') \<Longrightarrow> res = Inl e \<Longrightarrow> P"
    and "\<And>r0. Room_findOne rid d = (Inr (Some r0), d') \<Longrightarrow> u \<in> set (room_participants r0) \<Longrightarrow>
           res = Inr r0 \<Longrightarrow> P"
    and "\<And>d1 r1 d2. Room_findOne rid d = (Inr None, d1) \<Longrightarrow> new_Room rid u now d1 = (r1, d2) \<Longrightarrow>
           Room_save Created r1 d2 = (res, d') \<Longrightarrow> P"
    and "\<And>d1 r0. Room_findOne rid d = (Inr (Some r0), d1) \<Longrightarrow> u \<notin> set (room_participants r0) \<Longrightarrow>
           Room_save (Pushed u) (r0\<lparr>room_participants := room_participants r0 @ [u]\<rparr>) d1 =
             (res, d') \<Longrightarrow> P"
  shows P
proof -
  obtain res1 d1 where f: "Room_findOne rid d = (res1, d1)" by force
  obtain r1 d2 where n: "new_Room rid u now d1 = (r1, d2)" by force
  from assms(1) f n assms(2) assms(3) assms(4) [of d1 r1 d2] assms(5) [of _ d1] show P
    by (auto simp: find_or_create_room_def split: sum.splits option.splits if_splits)
qed

lemma new_Room_frame:
  assumes "new_Room rid u now d = (r, d')"
  shows "rooms d' = rooms d" "messages d' = messages d" "next_oid d' = Suc (next_oid d)"
    "faults d' = faults d" "room_roomId r = rid" "room_participants r = [u]"
    "room_oid r = next_oid d"
  using assms by (auto simp: new_Room_def)

lemma find_or_create_room_frame:
  assumes "find_or_create_room rid u now d = (res, d')"
  shows "messages d' = messages d \<and> next_oid d \<le> next_oid d'"
  using assms
proof (cases rule: find_or_create_room_cases)
  case (Failed e)
  then show ?thesis by (auto dest: Room_findOne_result)
next
  case (Listed r0)
  then show ?thesis by (auto dest: Room_findOne_result)
next
  case (Created d1 r1 d2)
  from Room_findOne_result [OF Created(1)] new_Room_frame [OF Created(2)] Created(3)
  show ?thesis by (cases res) (auto dest: Room_save_Inl Room_save_Inr)
next
  case (Pushed d1 r0)
  from Room_findOne_result [OF Pushed(1)] Pushed(3)
  show ?thesis by (cases res) (auto dest: Room_save_Inl Room_save_Inr)
qed

lemma find_or_create_room_Inl:
  assumes "find_or_create_room rid u now d = (Inl e, d')"
  shows "rooms d' = rooms d \<and> messages d' = messages d \<and> next_oid d \<le> next_oid d'"
  using assms
proof (cases rule: find_or_create_room_cases)
  case (Failed e)
  then show ?thesis by (auto dest: Room_findOne_result)
next
  case (Created d1 r1 d2)
  from Room_findOne_result [OF Created(1)] new_Room_frame [OF Created(2)]
    Room_save_Inl [OF Created(3)]
  show ?thesis by simp
next
  case (Pushed d1 r0)
  from Room_findOne_result [OF Pushed(1)] Room_save_Inl [OF Pushed(3)]
  show ?thesis by simp
qed simp

lemma find_or_create_room_Inr:
  assumes "find_or_create_room rid u now d = (Inr r, d')"
  shows "find_room rid d' = Some r"
    and "room_participants r = add_participant u (participants_of rid d)"
    and "messages d' = messages d \<and> next_oid d \<le> next_oid d'"
    and "rid' \<noteq> rid \<Longrightarrow> find_room rid' d' = find_room rid' d"
proof -
  obtain res1 d1 where f: "Room_findOne rid d = (res1, d1)" by force
  note F = Room_findOne_result [OF f]
  with assms f have res1: "res1 = Inr (find_room rid d)"
    by (auto simp: find_or_create_room_def)
  from F have fr: "find_room x d1 = find_room x d" for x
    by (intro find_room_cong) simp
  let ?P = "\<lambda>r d'. (\<forall>x. find_room x d' = (if x = rid then Some r else find_room x d)) \<and>
        room_participants r = add_participant u (participants_of rid d) \<and>
        messages d' = messages d \<and> next_oid d \<le> next_oid d'"
  have "?P r d'"
  proof (cases "find_room rid d")
    case None
    obtain r1 d2 where n: "new_Room rid u now d1 = (r1, d2)" by force
    with assms f res1 None have s: "Room_save Created r1 d2 = (Inr r, d')"
      by (simp add: find_or_create_room_def)
    from n have "room_roomId r1 = rid" "room_participants r1 = [u]" "rooms d2 = rooms d1"
      "messages d2 = messages d1" "next_oid d1 \<le> next_oid d2"
      by (auto simp: new_Room_def)
    with Room_save_Created_find [OF s] Room_save_Inr [OF s] F None show ?thesis
      by (simp add: participants_of_def add_participant_def find_room_cong [of d2 d1] fr)
  next
    case (Some r0)
    show ?thesis
    proof (cases "u \<in> set (room_participants r0)")
      case True
      with assms f res1 Some have "r = r0" "d' = d1"
        by (simp_all add: find_or_create_room_def)
      with True Some F show ?thesis
        by (simp add: fr participants_of_def add_participant_def)
    next
      case False
      let ?ps = "room_participants r0 @ [u]"
      from assms f res1 Some False
      have s: "Room_save (Pushed u) (r0\<lparr>room_participants := ?ps\<rparr>) d1 = (Inr r, d')"
        by (simp add: find_or_create_room_def)
      from Some have "find_room rid d1 = Some r0" by (simp add: fr)
      from Room_save_fresh [OF this _ s] Room_save_Inr [OF s] F Some False show ?thesis
        by (simp add: fr participants_of_def add_participant_def fresh_change_def)
    qed
  qed
  then show "find_room rid d' = Some r"
    and "room_participants r = add_participant u (participants_of rid d)"
    and "messages d' = messages d \<and> next_oid d \<le> next_oid d'"
    and "rid' \<noteq> rid \<Longrightarrow> find_room rid' d' = find_room rid' d"
    by simp_all
qed

lemma new_Room_inv:
  assumes "db_inv d" "new_Room rid u now d = (r, d')"
  shows "db_inv d'" "room_participants r \<noteq> []" "distinct (room_participants r)"
    "room_oid r < next_oid d'" "room_oid r \<notin> room_oid ` set (rooms d')"
  using assms db_inv_next_oid [OF assms(1)] by (auto simp: new_Room_def dest: db_inv_roomsD(4))

lemma find_or_create_room_inv:
  assumes "db_inv d" "find_or_create_room rid u now d = (res, d')"
  shows "db_inv d'"
proof -
  obtain res1 d1 where f: "Room_findOne rid d = (res1, d1)" by force
  note F = Room_findOne_result [OF f]
  from assms(1) f have d1: "db_inv d1" by (rule Room_findOne_inv)
  show ?thesis
  proof (cases "res1 = Inr (find_room rid d)")
    case False
    with F assms(2) f d1 show ?thesis by (auto simp: find_or_create_room_def)
  next
    case True
    show ?thesis
    proof (cases "find_room rid d")
      case None
      obtain r1 d2 where n: "new_Room rid u now d1 = (r1, d2)" by force
      with assms(2) f True None have "Room_save Created r1 d2 = (res, d')"
        by (simp add: find_or_create_room_def)
      with new_Room_inv [OF d1 n] show ?thesis by (rule Room_save_Created_inv)
    next
      case (Some r0)
      with F have r0: "r0 \<in> set (rooms d1)" by (auto dest: find_room_SomeD)
      with d1 have "room_ok r0" by (auto dest: db_inv_roomsD)
      with assms(2) f True d1 Some r0 show ?thesis
        by (auto simp: find_or_create_room_def room_ok_def fresh_change_def split: if_splits
            elim!: Room_save_fresh_inv [rotated 5])
    qed
  qed
qed

lemma find_or_create_room_ok:
  assumes "faults d = []" "rid \<noteq> []"
  shows "\<exists>r d'. find_or_create_room rid u now d = (Inr r, d') \<and> faults d' = []"
proof (cases "find_room rid d")
  case None
  then have "rid \<notin> room_roomId ` set (rooms d)" by (simp add: find_room_None_iff)
  with None assms show ?thesis
    by (simp add: find_or_create_room_def new_Room_def store_ok validate_room_def
        insert_room_def)
next
  case (Some r0)
  from Room_save_fresh_ok [OF assms(1) Some assms(2), of "Pushed u" "room_participants r0 @ [u]"]
  show ?thesis using Some assms
    by (auto simp: find_or_create_room_def store_ok fresh_change_def)
qed

section \<open>join-room: the handler\<close>

lemma bind_socket_eq:
  "bind_socket sid rid u t =
     AList.map_entry sid
       (\<lambda>k. k\<lparr>sock_rooms := List.insert rid (sock_rooms k), sock_roomId := Some rid,
              sock_username := Some u\<rparr>) t"
  by (simp add: bind_socket_def socket_join_def map_entry_twice comp_def)

lemma transport_inv_bind_socket: "transport_inv t \<Longrightarrow> transport_inv (bind_socket sid rid u t)"
  unfolding bind_socket_eq by (rule transport_inv_map_entry) (auto simp: socket_ok_def)

lemma connected_bind_socket [simp]: "connected sid' (bind_socket sid rid u t) = connected sid' t"
  by (simp add: bind_socket_eq)

lemma map_of_bind_socket:
  "map_of (bind_socket sid rid u t) sid' =
     (if sid' = sid
      then map_option (\<lambda>k. k\<lparr>sock_rooms := List.insert rid (sock_rooms k), sock_roomId := Some rid,
              sock_username := Some u\<rparr>) (map_of t sid)
      else map_of t sid')"
  by (simp add: bind_socket_eq map_of_map_entry split: option.splits)

lemma set_members_bind_socket:
  assumes "transport_inv t" "connected sid t"
  shows "set (members rid' (bind_socket sid rid u t)) =
           (if rid' = rid then insert sid (set (members rid' t)) else set (members rid' t))"
proof -
  from assms(1) have d: "distinct (map fst t)" by (simp add: transport_inv_def)
  from assms(2) obtain k where k: "map_of t sid = Some k"
    by (auto simp: connected_map_of)
  from d k have "sid \<in> set (members rid' t) \<longleftrightarrow> rid' \<in> set (sock_rooms k)"
    by (simp add: mem_members_iff)
  then show ?thesis
    unfolding bind_socket_eq set_members_map_entry [OF d k] by auto
qed

text \<open>The query of the join: oldest first, at most fifty.\<close>

lemma run_recent_messages_query:
  "run_query (recent_messages_query rid) d = take 50 (sort_key msg_timestamp (room_messages rid d))"
  by (simp add: recent_messages_query_def run_query_def Query_sort_def Query_limit_def
      Message_find_def)

lemma join_room_inv:
  assumes "server_inv s" "join_room sid rid u now s = (es, s')"
  shows "server_inv s'"
proof -
  obtain res1 d1 where f: "find_or_create_room rid u now (store s) = (res1, d1)" by force
  obtain res2 d2 where q: "Query_exec (recent_messages_query rid) d1 = (res2, d2)" by force
  from assms(1) f have d1: "db_inv d1"
    by (auto simp: server_inv_def elim: find_or_create_room_inv)
  then have "db_inv d2" using q by (rule Query_exec_inv)
  with assms f q d1 show ?thesis
    by (cases res1; cases res2)
       (auto simp: join_room_def server_inv_def Let_def transport_inv_bind_socket)
qed

text \<open>
  On a well-formed store that does not fail, a join to a room with a non-empty id always
  succeeds: the caller receives the room's participants and its first fifty messages, every other
  member of the group is told, and the store changes in the joined room's participant
  list only.
\<close>

lemma join_room_emits:
  assumes "faults (store s) = []" "rid \<noteq> []"
  shows "\<exists>ps s'. join_room sid rid u now s =
           (socket_emit sid (RoomJoined rid ps
                (take 50 (sort_key msg_timestamp (room_messages rid (store s))))) @
            socket_to_emit sid rid (UserJoined u ps) (bind_socket sid rid u (sockets s)), s')"
proof -
  from find_or_create_room_ok [OF assms(1,2)] obtain r d1
    where f: "find_or_create_room rid u now (store s) = (Inr r, d1)" and d1: "faults d1 = []"
    by blast
  from find_or_create_room_frame [OF f]
  have "room_messages rid d1 = room_messages rid (store s)"
    by (simp add: room_messages_def)
  with f d1 show ?thesis
    by (intro exI [of _ "room_participants r"])
       (simp add: join_room_def Let_def Query_exec_ok run_recent_messages_query)
qed

lemma join_room_ok:
  fixes s :: server and rid :: room_id and u :: username
  assumes "faults (store s) = []" "rid \<noteq> []"
  defines "ps \<equiv> add_participant u (participants_of rid (store s))"
  shows "\<exists>s'. join_room sid rid u now s =
           (socket_emit sid (RoomJoined rid ps
                (take 50 (sort_key msg_timestamp (room_messages rid (store s))))) @
            socket_to_emit sid rid (UserJoined u ps) (bind_socket sid rid u (sockets s)), s') \<and>
         sockets s' = bind_socket sid rid u (sockets s) \<and>
         faults (store s') = [] \<and> messages (store s') = messages (store s) \<and>
         next_oid (store s) \<le> next_oid (store s') \<and>
         (\<forall>x. participants_of x (store s') =
              (if x = rid then Some ps else participants_of x (store s)))"
proof -
  from find_or_create_room_ok [OF assms(1,2)] obtain r d1
    where f: "find_or_create_room rid u now (store s) = (Inr r, d1)" and d1: "faults d1 = []"
    by blast
  note R = find_or_create_room_Inr [OF f]
  from R(3) have rm: "room_messages rid d1 = room_messages rid (store s)"
    by (simp add: room_messages_def)
  have "participants_of x d1 = (if x = rid then Some ps else participants_of x (store s))" for x
    using R(1,2) R(4) [of x] by (simp add: participants_of_def ps_def)
  with f d1 R(2,3) rm show ?thesis
    by (simp add: join_room_def Let_def Query_exec_ok run_recent_messages_query ps_def)
qed

section \<open>send-message\<close>

lemma send_message_inv:
  assumes "server_inv s" "send_message sid rid sender body now s = (es, s')"
  shows "server_inv s'"
proof -
  let ?d0 = "(store s)\<lparr>next_oid := Suc (next_oid (store s))\<rparr>"
  let ?m = "\<lparr>msg_id = next_oid (store s), msg_roomId = rid, msg_sender = sender,
             msg_text = body, msg_timestamp = now\<rparr>"
  obtain res d1 where sv: "Message_save ?m ?d0 = (res, d1)" by force
  from assms(1) have "db_inv ?d0" "msg_id ?m \<notin> msg_id ` set (messages ?d0)"
    by (auto simp: server_inv_def db_inv_next_oid db_inv_def message_ok_def)
  then have "db_inv d1" using sv by (intro Message_save_inv [of ?d0 ?m res d1]) simp_all
  with assms sv show ?thesis
    by (cases res) (auto simp: send_message_def new_Message_def server_inv_def)
qed

lemma send_message_ok:
  assumes "faults (store s) = []" "rid \<noteq> []" "sender \<noteq> []" "body \<noteq> []"
  shows "send_message sid rid sender body now s =
           (io_to_emit rid (NewMessage (next_oid (store s)) rid sender body now) (sockets s),
            s\<lparr>store := (store s)\<lparr>next_oid := Suc (next_oid (store s)),
                 messages := messages (store s) @
                   [\<lparr>msg_id = next_oid (store s), msg_roomId = rid, msg_sender = sender,
                     msg_text = body, msg_timestamp = now\<rparr>]\<rparr>\<rparr>)"
  using assms by (simp add: send_message_def new_Message_def Message_save_ok validate_message_def)

lemma send_message_fail:
  assumes "send_message sid rid sender body now s = (es, s')"
    and "faults (store s) = True # bs \<or> rid = [] \<or> sender = [] \<or> body = []"
  shows "es = [(sid, ErrorEvent ''Failed to send message'')] \<and>
         messages (store s') = messages (store s) \<and> rooms (store s') = rooms (store s) \<and>
         sockets s' = sockets s"
proof -
  let ?d0 = "(store s)\<lparr>next_oid := Suc (next_oid (store s))\<rparr>"
  let ?m = "\<lparr>msg_id = next_oid (store s), msg_roomId = rid, msg_sender = sender,
             msg_text = body, msg_timestamp = now\<rparr>"
  from assms(2) obtain e where "Message_save ?m ?d0 = (Inl e, ?d0\<lparr>faults := tl (faults ?d0)\<rparr>) \<or>
      Message_save ?m ?d0 = (Inl e, ?d0)"
    by (cases "validate_message ?m") (auto simp: Message_save_def validate_message_def)
  with assms(1) show ?thesis
    by (auto simp: send_message_def new_Message_def socket_emit_def)
qed

section \<open>clear-room-chat\<close>

lemma clear_room_chat_inv:
  assumes "server_inv s" "clear_room_chat sid rid s = (es, s')"
  shows "server_inv s'"
proof -
  obtain res d1 where c: "Message_deleteMany rid (store s) = (res, d1)" by force
  with assms(1) have "db_inv d1" by (auto simp: server_inv_def elim: Message_deleteMany_inv)
  with assms c show ?thesis
    by (cases res) (auto simp: clear_room_chat_def server_inv_def)
qed

lemma clear_room_chat_ok:
  assumes "faults (store s) = []"
  shows "clear_room_chat sid rid s =
           (io_to_emit rid RoomChatCleared (sockets s),
            s\<lparr>store := (store s)\<lparr>messages := filter (\<lambda>m. msg_roomId m \<noteq> rid) (messages (store s))\<rparr>\<rparr>)"
  using assms by (simp add: clear_room_chat_def Message_deleteMany_ok)

lemma clear_room_chat_fail:
  assumes "faults (store s) = True # bs"
  shows "clear_room_chat sid rid s =
           ([(sid, ErrorEvent ''Failed to clear chat'')], s\<lparr>store := (store s)\<lparr>faults := bs\<rparr>\<rparr>)"
  using assms by (simp add: clear_room_chat_def Message_deleteMany_def socket_emit_def)

section \<open>typing\<close>

lemma typing_state [simp]: "snd (typing sid rid u b s) = s"
  by (simp add: typing_def)

section \<open>disconnect\<close>

text \<open>
  What a disconnect promises for the participant list of the room the socket is bound
  to: the user is removed, and a room left without participants is deleted.
\<close>

definition drop_participant :: "username \<Rightarrow> username list option \<Rightarrow> username list option" where
  "drop_participant u ps =
     (case ps of
        None \<Rightarrow> None
      | Some xs \<Rightarrow> if filter (\<lambda>p. p \<noteq> u) xs = [] then None else Some (filter (\<lambda>p. p \<noteq> u) xs))"

lemma leave_room_inv:
  assumes "db_inv d" "leave_room sid rid u t d = (es, d')"
  shows "db_inv d'"
proof -
  obtain res1 d1 where f: "Room_findOne rid d = (res1, d1)" by force
  note F = Room_findOne_result [OF f]
  from assms(1) f have d1: "db_inv d1" by (rule Room_findOne_inv)
  show ?thesis
  proof (cases "res1 = Inr (find_room rid d) \<and> find_room rid d \<noteq> None")
    case False
    with F assms(2) f d1 show ?thesis by (auto simp: leave_room_def)
  next
    case True
    then obtain r where r: "find_room rid d = Some r" "res1 = Inr (Some r)" by auto
    with F have mem: "r \<in> set (rooms d1)" by (auto dest: find_room_SomeD)
    with d1 have ok: "room_ok r" by (auto dest: db_inv_roomsD)
    let ?ps = "filter (\<lambda>p. p \<noteq> u) (room_participants r)"
    show ?thesis
    proof (cases "?ps = []")
      case True
      with assms(2) f r d1 show ?thesis
        by (auto simp: leave_room_def remove_participant_def Let_def split: prod.splits
            elim: Room_deleteOne_inv)
    next
      case False
      obtain res2 d2
        where s: "Room_save (Assigned (room_participants r)) (r\<lparr>room_participants := ?ps\<rparr>) d1 =
          (res2, d2)" by force
      from ok have "distinct ?ps" by (simp add: room_ok_def)
      with d1 mem False s have "db_inv d2"
        by (intro Room_save_fresh_inv [OF d1 mem _ False _ s]) (simp_all add: fresh_change_def)
      with assms(2) f r False s show ?thesis
        by (cases res2) (auto simp: leave_room_def remove_participant_def Let_def)
    qed
  qed
qed

lemma leave_room_ok:
  assumes "faults d = []" "db_inv d"
  shows "\<exists>d'. leave_room sid rid u t d =
           ((case drop_participant u (participants_of rid d) of
               None \<Rightarrow> []
             | Some ps \<Rightarrow> socket_to_emit sid rid (UserLeft u ps) t), d') \<and>
         faults d' = [] \<and> messages d' = messages d \<and> next_oid d' = next_oid d \<and>
         (\<forall>x. participants_of x d' =
              (if x = rid then drop_participant u (participants_of rid d)
               else participants_of x d))"
proof (cases "find_room rid d")
  case None
  with assms(1) show ?thesis
    by (simp add: leave_room_def Room_findOne_ok participants_of_def drop_participant_def)
next
  case (Some r)
  then have r: "r \<in> set (rooms d)" "room_roomId r = rid" by (auto dest: find_room_SomeD)
  with assms(2) have ok: "room_ok r" by (auto dest: db_inv_roomsD)
  let ?ps = "filter (\<lambda>p. p \<noteq> u) (room_participants r)"
  let ?r' = "r\<lparr>room_participants := ?ps\<rparr>"
  show ?thesis
  proof (cases "?ps = []")
    case True
    let ?d' = "d\<lparr>rooms := delete_first (\<lambda>r. room_roomId r = rid) (rooms d)\<rparr>"
    from assms(2) have "participants_of x ?d' = (if x = rid then None else participants_of x d)" for x
      by (simp add: participants_of_def find_room_delete [of d ?d' rid] db_inv_roomsD)
    with True Some assms(1) show ?thesis
      by (simp add: leave_room_def Room_findOne_ok Room_deleteOne_ok remove_participant_def
          participants_of_def drop_participant_def)
  next
    case False
    have c: "fresh_change (Assigned (room_participants r)) r ?ps" by (simp add: fresh_change_def)
    from ok r have "rid \<noteq> []" by (auto simp: room_ok_def validate_room_def)
    from Room_save_fresh_ok [OF assms(1) Some this c] obtain r' d'
      where s: "Room_save (Assigned (room_participants r)) ?r' d = (Inr r', d')"
        and d': "faults d' = []" by blast
    note R = Room_save_fresh [OF Some c s] Room_save_Inr [OF s]
    have "participants_of x d' = (if x = rid then Some ?ps else participants_of x d)" for x
      using R by (simp add: participants_of_def)
    with False Some assms(1) s d' R(2) show ?thesis
      by (simp add: leave_room_def Room_findOne_ok Let_def remove_participant_def
          participants_of_def drop_participant_def)
  qed
qed

lemma disconnect_inv:
  assumes "server_inv s" "disconnect sid s = (es, s')"
  shows "server_inv s'"
proof (cases "map_of (sockets s) sid")
  case None
  with assms show ?thesis by (simp add: disconnect_def)
next
  case (Some k)
  from assms(1) have t: "transport_inv (AList.delete sid (sockets s))"
    by (simp add: server_inv_def transport_inv_delete)
  from assms(1) have d: "db_inv (store s)" by (simp add: server_inv_def)
  from assms(2) Some t d show ?thesis
    by (auto simp: disconnect_def Let_def server_inv_def
        split: option.splits if_splits prod.splits dest: leave_room_inv [OF d])
qed

lemma disconnect_disconnects:
  "disconnect sid s = (es, s') \<Longrightarrow> sockets s' = AList.delete sid (sockets s)"
  by (auto simp: disconnect_def Let_def map_of_eq_None_iff
      split: option.splits if_splits prod.splits)

text \<open>A socket that never joined, or joined under an empty name, leaves the store alone.\<close>

lemma disconnect_unbound:
  assumes "map_of (sockets s) sid = Some k"
    and "\<not> (js_truthy (sock_roomId k) \<and> js_truthy (sock_username k))"
  shows "disconnect sid s = ([], s\<lparr>sockets := AList.delete sid (sockets s)\<rparr>)"
  using assms by (auto simp: disconnect_def Let_def split: option.splits)

lemma disconnect_bound:
  assumes "map_of (sockets s) sid = Some k"
    and "sock_roomId k = Some rid" "sock_username k = Some u" "rid \<noteq> []" "u \<noteq> []"
  shows "disconnect sid s =
           (case leave_room sid rid u (AList.delete sid (sockets s)) (store s) of
              (es, d) \<Rightarrow> (es, \<lparr>store = d, sockets = AList.delete sid (sockets s)\<rparr>))"
  using assms by (simp add: disconnect_def Let_def)

section \<open>Every handler keeps the server well formed\<close>

lemma handle_inv:
  assumes "server_inv s" "handle sid now ev s = (es, s')"
  shows "server_inv s'"
proof (cases ev)
  case (ClearRoomChat rid)
  with assms show ?thesis by (auto elim: clear_room_chat_inv)
next
  case (JoinRoom rid u)
  with assms show ?thesis by (auto elim: join_room_inv)
next
  case (SendMessage rid u body)
  with assms show ?thesis by (auto elim: send_message_inv)
next
  case (Typing rid u b)
  with assms show ?thesis by (auto simp: typing_def)
next
  case Disconnect
  with assms show ?thesis by (auto elim: disconnect_inv)
qed

lemma dispatch_inv:
  "server_inv s \<Longrightarrow> dispatch sid now ev s = (es, s') \<Longrightarrow> server_inv s'"
  by (auto simp: dispatch_def split: if_splits elim: handle_inv)

section \<open>Evaluating the handlers on concrete states\<close>

lemmas eval_defs =
  handler_defs store_defs transport_defs init_server_def empty_db_def store_call_def
  add_participant_def drop_participant_def participants_of_def

section \<open>Properties of join-room\<close>

text \<open>
  Claim C2: on a store that does not fail, joining a room with a non-empty id leaves that
  room with the participant list the join promises (the joining user alone in a new
  room, appended to an existing list unless already in it) and leaves the participant
  list of every other room as it was.
\<close>

theorem join_room_participants:
  assumes "faults (store s) = []" "rid \<noteq> []"
  shows "participants_of x (store (snd (join_room sid rid u now s))) =
           (if x = rid then Some (add_participant u (participants_of rid (store s)))
            else participants_of x (store s))"
  using join_room_ok [OF assms, where u = u and sid = sid and now = now] by auto

theorem join_room_participants_witness:
  "faults (store (connection 1 init_server)) = [] \<and> ''r1'' \<noteq> [] \<and>
   participants_of ''r1'' (store (snd (join_room 1 ''r1'' ''alice'' 5 (connection 1 init_server)))) =
     Some [''alice'']"
  using join_room_participants [of "connection 1 init_server" "''r1''" "''r1''" 1 "''alice''" 5]
  by (simp add: eval_defs)

text \<open>
  Claim C7: joining again under a name the room already lists writes nothing: on a store
  that does not fail, the whole store (rooms, participant lists, messages) is the one
  before the join.
\<close>

theorem rejoin_keeps_store:
  assumes "faults (store s) = []" "participants_of rid (store s) = Some ps" "u \<in> set ps"
  shows "store (snd (join_room sid rid u now s)) = store s"
proof -
  from assms(2) obtain r where r: "find_room rid (store s) = Some r" "room_participants r = ps"
    by (auto simp: participants_of_def)
  with assms(1,3) show ?thesis
    by (simp add: join_room_def find_or_create_room_def Room_findOne_ok Query_exec_ok Let_def)
qed

theorem rejoin_keeps_store_witness:
  "faults (store (snd (join_room 1 ''r1'' ''alice'' 5 (connection 1 init_server)))) = [] \<and>
   participants_of ''r1'' (store (snd (join_room 1 ''r1'' ''alice'' 5 (connection 1 init_server)))) =
     Some [''alice''] \<and> ''alice'' \<in> set [''alice''] \<and>
   store (snd (join_room 1 ''r1'' ''alice'' 9
            (snd (join_room 1 ''r1'' ''alice'' 5 (connection 1 init_server))))) =
     store (snd (join_room 1 ''r1'' ''alice'' 5 (connection 1 init_server)))"
  using rejoin_keeps_store [of "snd (join_room 1 ''r1'' ''alice'' 5 (connection 1 init_server))"
      "''r1''" "[''alice'']" "''alice''" 1 9]
  by (simp add: eval_defs)

text \<open>
  Claim C6: on a store that does not fail, the socket that joins a room with a non-empty
  id receives exactly one event, the room-joined reply; its message list has at most 50
  entries, is in ascending order of timestamp, and holds only messages of that room.
\<close>

theorem join_room_reply:
  assumes "faults (store s) = []" "rid \<noteq> []"
  shows "\<exists>ps ms. received sid (fst (join_room sid rid u now s)) = [RoomJoined rid ps ms] \<and>
           length ms \<le> 50 \<and> sorted (map msg_timestamp ms) \<and>
           set ms \<subseteq> set (room_messages rid (store s))"
proof -
  let ?ms = "take 50 (sort_key msg_timestamp (room_messages rid (store s)))"
  have "length ?ms \<le> 50" "sorted (map msg_timestamp ?ms)"
    "set ?ms \<subseteq> set (room_messages rid (store s))"
    using set_take_subset [of 50 "sort_key msg_timestamp (room_messages rid (store s))"]
    by (simp_all add: sorted_map_take)
  with join_room_emits [OF assms, where u = u and sid = sid and now = now] show ?thesis
    by auto
qed

theorem join_room_reply_witness:
  "faults (store (connection 1 init_server)) = [] \<and> ''r1'' \<noteq> [] \<and>
   (\<exists>ps ms. received 1 (fst (join_room 1 ''r1'' ''alice'' 5 (connection 1 init_server))) =
       [RoomJoined ''r1'' ps ms] \<and> length ms \<le> 50 \<and> sorted (map msg_timestamp ms) \<and>
       set ms \<subseteq> set (room_messages ''r1'' (store (connection 1 init_server))))"
  using join_room_reply [of "connection 1 init_server" "''r1''" 1 "''alice''" 5]
  by (simp add: eval_defs)

section \<open>The message list of the join reply\<close>

text \<open>
  The source builds the query by \<^verbatim>\<open>sort({timestamp: -1})\<close>, \<^verbatim>\<open>limit(50)\<close>,
  \<^verbatim>\<open>sort({timestamp: 1})\<close>. Read as a pipeline (sort descending, keep 50, sort ascending)
  this would give the 50 most recent messages, oldest first: that reading is
  \<open>most_recent\<close>. The query builder instead keeps one direction per sort field, the
  last one given, and limits after sorting: that is \<open>recent_messages_query\<close>.
\<close>

definition most_recent :: "nat \<Rightarrow> message list \<Rightarrow> message list" where
  "most_recent n ms =
     sort_messages (Some Asc) (limit_messages (Some n) (sort_messages (Some Desc) ms))"

lemma most_recent_small:
  "length ms \<le> n \<Longrightarrow> most_recent n ms = sort_key msg_timestamp ms"
  by (simp add: most_recent_def sort_key_desc_asc)

lemma most_recent_strict:
  assumes "sorted_wrt (<) (map msg_timestamp ms)"
  shows "most_recent n ms = drop (length ms - n) ms"
proof -
  from assms have "sort_key msg_timestamp (rev ms) = ms" by (rule sort_key_rev_strict)
  moreover from assms have "sort_key msg_timestamp (rev (drop (length ms - n) ms)) =
      drop (length ms - n) ms"
    by (intro sort_key_rev_strict sorted_wrt_map_drop)
  ultimately show ?thesis by (simp add: most_recent_def take_rev)
qed

text \<open>
  Claim C38: when the room holds at most 50 messages, the query of the join returns what
  the pipeline reading of the source promises: the room's messages in ascending order
  of timestamp.
\<close>

theorem recent_messages_small_room:
  assumes "length (room_messages rid d) \<le> 50"
  shows "run_query (recent_messages_query rid) d = most_recent 50 (room_messages rid d)"
  using assms by (simp add: run_recent_messages_query most_recent_small)

theorem recent_messages_small_room_witness:
  "length (room_messages ''r1'' (empty_db\<lparr>messages :=
      [\<lparr>msg_id = 0, msg_roomId = ''r1'', msg_sender = ''a'', msg_text = ''x'', msg_timestamp = 7\<rparr>,
       \<lparr>msg_id = 1, msg_roomId = ''r1'', msg_sender = ''b'', msg_text = ''y'', msg_timestamp = 3\<rparr>]\<rparr>)) \<le> 50 \<and>
   run_query (recent_messages_query ''r1'') (empty_db\<lparr>messages :=
      [\<lparr>msg_id = 0, msg_roomId = ''r1'', msg_sender = ''a'', msg_text = ''x'', msg_timestamp = 7\<rparr>,
       \<lparr>msg_id = 1, msg_roomId = ''r1'', msg_sender = ''b'', msg_text = ''y'', msg_timestamp = 3\<rparr>]\<rparr>) =
     [\<lparr>msg_id = 1, msg_roomId = ''r1'', msg_sender = ''b'', msg_text = ''y'', msg_timestamp = 3\<rparr>,
      \<lparr>msg_id = 0, msg_roomId = ''r1'', msg_sender = ''a'', msg_text = ''x'', msg_timestamp = 7\<rparr>]"
  using recent_messages_small_room [of "''r1''" "empty_db\<lparr>messages :=
      [\<lparr>msg_id = 0, msg_roomId = ''r1'', msg_sender = ''a'', msg_text = ''x'', msg_timestamp = 7\<rparr>,
       \<lparr>msg_id = 1, msg_roomId = ''r1'', msg_sender = ''b'', msg_text = ''y'', msg_timestamp = 3\<rparr>]\<rparr>"]
  by (simp add: room_messages_def most_recent_def)

text \<open>
  Claim C5: when the room holds more than 50 messages with strictly increasing
  timestamps, the query of the join returns the 50 oldest messages, so the newest
  message of the room is not in the reply, whereas the 50 most recent messages, which
  the pipeline reading promises, end with it.
\<close>

theorem recent_messages_drops_newest:
  assumes "50 < length (room_messages rid d)"
    and "sorted_wrt (<) (map msg_timestamp (room_messages rid d))"
  shows "run_query (recent_messages_query rid) d = take 50 (room_messages rid d) \<and>
         last (room_messages rid d) \<notin> set (run_query (recent_messages_query rid) d) \<and>
         most_recent 50 (room_messages rid d) =
           drop (length (room_messages rid d) - 50) (room_messages rid d) \<and>
         last (room_messages rid d) \<in> set (most_recent 50 (room_messages rid d))"
proof -
  let ?ms = "room_messages rid d"
  from assms(2) have "sorted (map msg_timestamp ?ms)" "distinct (map msg_timestamp ?ms)"
    by (simp_all add: strict_sorted_iff)
  then have q: "run_query (recent_messages_query rid) d = take 50 ?ms" and d: "distinct ?ms"
    by (simp_all add: run_recent_messages_query sort_key_id_if_sorted distinct_map)
  from d assms(1) have "last ?ms \<notin> set (take 50 ?ms)" by (rule last_notin_take)
  moreover from assms(1) have "last ?ms \<in> set (drop (length ?ms - 50) ?ms)"
    by (intro last_in_drop) simp
  ultimately show ?thesis using q most_recent_strict [OF assms(2), of 50] by simp
qed

text \<open>A room with 51 messages, sent at times 0 to 50.\<close>

definition long_room :: db where
  "long_room = empty_db\<lparr>messages :=
     map (\<lambda>i. \<lparr>msg_id = i, msg_roomId = ''r1'', msg_sender = ''a'', msg_text = ''x'',
               msg_timestamp = i\<rparr>) [0..<51]\<rparr>"

lemma room_messages_long_room:
  "room_messages ''r1'' long_room =
     map (\<lambda>i. \<lparr>msg_id = i, msg_roomId = ''r1'', msg_sender = ''a'', msg_text = ''x'',
               msg_timestamp = i\<rparr>) [0..<51]"
  by (simp add: room_messages_def long_room_def empty_db_def filter_map comp_def)

theorem recent_messages_drops_newest_witness:
  "50 < length (room_messages ''r1'' long_room) \<and>
   sorted_wrt (<) (map msg_timestamp (room_messages ''r1'' long_room)) \<and>
   msg_timestamp (last (room_messages ''r1'' long_room)) = 50 \<and>
   last (room_messages ''r1'' long_room) \<notin> set (run_query (recent_messages_query ''r1'') long_room) \<and>
   last (room_messages ''r1'' long_room) \<in> set (most_recent 50 (room_messages ''r1'' long_room))"
proof -
  have h1: "50 < length (room_messages ''r1'' long_room)"
    by (simp add: room_messages_long_room)
  have h2: "sorted_wrt (<) (map msg_timestamp (room_messages ''r1'' long_room))"
    by (simp add: room_messages_long_room comp_def)
  have h3: "msg_timestamp (last (room_messages ''r1'' long_room)) = 50"
    by (simp add: room_messages_long_room last_map)
  from recent_messages_drops_newest [OF h1 h2] h1 h2 h3 show ?thesis by blast
qed

section \<open>Properties of send-message\<close>

text \<open>
  Claim C4: on a store that does not fail, a send-message with non-empty room, sender and
  text appends exactly one message to the collection, with the given fields, the time of
  the call as its timestamp and the next object id of the store; the new-message event carrying that id and
  timestamp is delivered to exactly the members of the room's group, the sender
  included when it has joined.
\<close>

theorem send_message_persists_and_broadcasts:
  assumes "faults (store s) = []" "rid \<noteq> []" "sender \<noteq> []" "body \<noteq> []"
  shows "messages (store (snd (send_message sid rid sender body now s))) =
           messages (store s) @
             [\<lparr>msg_id = next_oid (store s), msg_roomId = rid, msg_sender = sender,
               msg_text = body, msg_timestamp = now\<rparr>] \<and>
         fst (send_message sid rid sender body now s) =
           map (\<lambda>r. (r, NewMessage (next_oid (store s)) rid sender body now))
             (members rid (sockets s)) \<and>
         rooms (store (snd (send_message sid rid sender body now s))) = rooms (store s)"
  using assms by (simp add: send_message_ok io_to_emit_def)

theorem send_message_persists_and_broadcasts_witness:
  "faults (store (snd (join_room 1 ''r1'' ''alice'' 5 (connection 1 init_server)))) = [] \<and>
   ''r1'' \<noteq> [] \<and> ''alice'' \<noteq> [] \<and> ''hi'' \<noteq> [] \<and>
   messages (store (snd (send_message 1 ''r1'' ''alice'' ''hi'' 8
       (snd (join_room 1 ''r1'' ''alice'' 5 (connection 1 init_server)))))) =
     [\<lparr>msg_id = 1, msg_roomId = ''r1'', msg_sender = ''alice'', msg_text = ''hi'',
       msg_timestamp = 8\<rparr>] \<and>
   fst (send_message 1 ''r1'' ''alice'' ''hi'' 8
       (snd (join_room 1 ''r1'' ''alice'' 5 (connection 1 init_server)))) =
     [(1, NewMessage 1 ''r1'' ''alice'' ''hi'' 8)]"
  using send_message_persists_and_broadcasts
    [of "snd (join_room 1 ''r1'' ''alice'' 5 (connection 1 init_server))"
        "''r1''" "''alice''" "''hi''" 1 8]
  by (simp add: eval_defs)

text \<open>
  Claim C32: a send-message that fails, because the store call throws or because the room,
  the sender or the text is empty, emits a single error event, to the sender only; no
  message is stored and nothing is broadcast.
\<close>

theorem send_message_failure:
  assumes "faults (store s) = True # bs \<or> rid = [] \<or> sender = [] \<or> body = []"
  shows "fst (send_message sid rid sender body now s) =
           [(sid, ErrorEvent ''Failed to send message'')] \<and>
         messages (store (snd (send_message sid rid sender body now s))) = messages (store s)"
  using send_message_fail [OF prod.collapse [symmetric] assms] by simp

theorem send_message_failure_witness:
  "(faults (store (snd (join_room 1 ''r1'' ''alice'' 5 (connection 1 init_server)))) = True # [] \<or>
    ''r1'' = [] \<or> ''alice'' = [] \<or> [] = ([] :: string)) \<and>
   fst (send_message 1 ''r1'' ''alice'' [] 8
       (snd (join_room 1 ''r1'' ''alice'' 5 (connection 1 init_server)))) =
     [(1, ErrorEvent ''Failed to send message'')] \<and>
   messages (store (snd (send_message 1 ''r1'' ''alice'' [] 8
       (snd (join_room 1 ''r1'' ''alice'' 5 (connection 1 init_server)))))) = []"
  using send_message_failure
    [of "snd (join_room 1 ''r1'' ''alice'' 5 (connection 1 init_server))" "[]"
        "''r1''" "''alice''" "[]" 1 8]
  by (simp add: eval_defs)

section \<open>Properties of clear-room-chat\<close>

text \<open>
  Claim C12: on a store that does not fail, clear-room-chat removes every message of the
  given room, leaves the messages of every other room in place and in order, leaves the
  rooms alone, and notifies exactly the members of the room's group.
\<close>

theorem clear_room_chat_scope:
  assumes "faults (store s) = []"
  shows "room_messages x (store (snd (clear_room_chat sid rid s))) =
           (if x = rid then [] else room_messages x (store s)) \<and>
         rooms (store (snd (clear_room_chat sid rid s))) = rooms (store s) \<and>
         fst (clear_room_chat sid rid s) =
           map (\<lambda>r. (r, RoomChatCleared)) (members rid (sockets s))"
proof -
  have "filter (\<lambda>m. msg_roomId m = x) (filter (\<lambda>m. msg_roomId m \<noteq> rid) ms) =
        (if x = rid then [] else filter (\<lambda>m. msg_roomId m = x) ms)" for ms :: "message list"
    by (induction ms) auto
  with assms show ?thesis
    by (simp add: clear_room_chat_ok room_messages_def io_to_emit_def)
qed

theorem clear_room_chat_scope_witness:
  "faults (store (snd (send_message 1 ''r1'' ''alice'' ''hi'' 8
       (snd (join_room 1 ''r1'' ''alice'' 5 (connection 1 init_server)))))) = [] \<and>
   room_messages ''r1'' (store (snd (clear_room_chat 1 ''r1''
       (snd (send_message 1 ''r1'' ''alice'' ''hi'' 8
          (snd (join_room 1 ''r1'' ''alice'' 5 (connection 1 init_server)))))))) = [] \<and>
   fst (clear_room_chat 1 ''r1''
       (snd (send_message 1 ''r1'' ''alice'' ''hi'' 8
          (snd (join_room 1 ''r1'' ''alice'' 5 (connection 1 init_server)))))) =
     [(1, RoomChatCleared)]"
  using clear_room_chat_scope
    [of "snd (send_message 1 ''r1'' ''alice'' ''hi'' 8
          (snd (join_room 1 ''r1'' ''alice'' 5 (connection 1 init_server))))" "''r1''" 1 "''r1''"]
  by (simp add: eval_defs)

section \<open>Properties of disconnect\<close>

text \<open>
  On a store that does not fail, the disconnect of a socket bound to a room under a
  non-empty name removes that name from the room, deletes the room when nobody is left,
  tells the remaining members of the group otherwise, and touches no other room.
\<close>

lemma disconnect_ok:
  assumes "server_inv s" "faults (store s) = []" "map_of (sockets s) sid = Some k"
    and "sock_roomId k = Some rid" "sock_username k = Some u" "rid \<noteq> []" "u \<noteq> []"
  shows "\<exists>s'. disconnect sid s =
           ((case drop_participant u (participants_of rid (store s)) of
               None \<Rightarrow> []
             | Some ps \<Rightarrow> socket_to_emit sid rid (UserLeft u ps) (sockets s)), s') \<and>
         sockets s' = AList.delete sid (sockets s) \<and> faults (store s') = [] \<and>
         messages (store s') = messages (store s) \<and>
         (\<forall>x. participants_of x (store s') =
              (if x = rid then drop_participant u (participants_of rid (store s))
               else participants_of x (store s)))"
proof -
  from assms(1) have "db_inv (store s)" by (simp add: server_inv_def)
  from leave_room_ok [OF assms(2) this, of sid rid u "AList.delete sid (sockets s)"]
  show ?thesis
    unfolding disconnect_bound [OF assms(3-7)]
    by (auto simp: socket_to_emit_delete_sender split: option.splits)
qed

text \<open>
  Claim C27: when the last participant of a room disconnects, on a store that does not
  fail, the room record is deleted, nobody is notified, and every other room keeps its
  participants.
\<close>

theorem disconnect_last_deletes_room:
  assumes "server_inv s" "faults (store s) = []" "map_of (sockets s) sid = Some k"
    and "sock_roomId k = Some rid" "sock_username k = Some u" "rid \<noteq> []" "u \<noteq> []"
    and "participants_of rid (store s) = Some [u]"
  shows "find_room rid (store (snd (disconnect sid s))) = None \<and>
         fst (disconnect sid s) = [] \<and>
         (x \<noteq> rid \<longrightarrow>
            participants_of x (store (snd (disconnect sid s))) = participants_of x (store s))"
proof -
  from disconnect_ok [OF assms(1-7)] obtain s'
    where d: "disconnect sid s =
        ((case drop_participant u (participants_of rid (store s)) of
            None \<Rightarrow> []
          | Some ps \<Rightarrow> socket_to_emit sid rid (UserLeft u ps) (sockets s)), s')"
      and p: "\<And>x. participants_of x (store s') =
        (if x = rid then drop_participant u (participants_of rid (store s))
         else participants_of x (store s))"
    by blast
  from assms(8) have dp: "drop_participant u (participants_of rid (store s)) = None"
    by (simp add: drop_participant_def)
  with p [of rid] have "find_room rid (store s') = None"
    by (simp add: participants_of_def)
  with d dp p [of x] show ?thesis by simp
qed

theorem disconnect_last_deletes_room_witness:
  "server_inv (snd (join_room 1 ''r1'' ''alice'' 5 (connection 1 init_server))) \<and>
   faults (store (snd (join_room 1 ''r1'' ''alice'' 5 (connection 1 init_server)))) = [] \<and>
   map_of (sockets (snd (join_room 1 ''r1'' ''alice'' 5 (connection 1 init_server)))) 1 =
     Some \<lparr>sock_rooms = [''r1''], sock_roomId = Some ''r1'', sock_username = Some ''alice''\<rparr> \<and>
   participants_of ''r1'' (store (snd (join_room 1 ''r1'' ''alice'' 5 (connection 1 init_server)))) =
     Some [''alice''] \<and>
   find_room ''r1'' (store (snd (disconnect 1
       (snd (join_room 1 ''r1'' ''alice'' 5 (connection 1 init_server)))))) = None"
proof -
  let ?s = "snd (join_room 1 ''r1'' ''alice'' 5 (connection 1 init_server))"
  let ?k = "\<lparr>sock_rooms = [''r1''], sock_roomId = Some ''r1'', sock_username = Some ''alice''\<rparr>"
  have inv: "server_inv ?s"
    by (intro join_room_inv [OF _ prod.collapse [symmetric]] connection_inv server_inv_init)
  have f: "faults (store ?s) = []" and m: "map_of (sockets ?s) 1 = Some ?k"
    and p: "participants_of ''r1'' (store ?s) = Some [''alice'']"
    by (simp_all add: eval_defs)
  from disconnect_last_deletes_room [OF inv f m _ _ _ _ p, of "''r1''"] inv f m p
  show ?thesis by simp
qed

text \<open>
  Claim C28: when a participant disconnects and others remain, on a store that does not
  fail, the room stays, its participant list is the old one without the leaving user, in
  the same order, and the user-left event with that list goes to every other member of
  the room's group.
\<close>

theorem disconnect_keeps_others:
  assumes "server_inv s" "faults (store s) = []" "map_of (sockets s) sid = Some k"
    and "sock_roomId k = Some rid" "sock_username k = Some u" "rid \<noteq> []" "u \<noteq> []"
    and "participants_of rid (store s) = Some ps" "\<exists>p \<in> set ps. p \<noteq> u"
  shows "participants_of rid (store (snd (disconnect sid s))) = Some (filter (\<lambda>p. p \<noteq> u) ps) \<and>
         fst (disconnect sid s) =
           map (\<lambda>r. (r, UserLeft u (filter (\<lambda>p. p \<noteq> u) ps)))
             (filter (\<lambda>r. r \<noteq> sid) (members rid (sockets s)))"
proof -
  from assms(9) have "filter (\<lambda>p. p \<noteq> u) ps \<noteq> []" by (simp add: filter_empty_conv)
  with disconnect_ok [OF assms(1-7)] assms(8) show ?thesis
    by (auto simp: drop_participant_def socket_to_emit_def)
qed

theorem disconnect_keeps_others_witness:
  "server_inv (snd (join_room 2 ''r1'' ''bob'' 6
       (connection 2 (snd (join_room 1 ''r1'' ''alice'' 5 (connection 1 init_server)))))) \<and>
   participants_of ''r1'' (store (snd (join_room 2 ''r1'' ''bob'' 6
       (connection 2 (snd (join_room 1 ''r1'' ''alice'' 5 (connection 1 init_server))))))) =
     Some [''alice'', ''bob''] \<and>
   (\<exists>p \<in> set [''alice'', ''bob'']. p \<noteq> ''alice'') \<and>
   participants_of ''r1'' (store (snd (disconnect 1 (snd (join_room 2 ''r1'' ''bob'' 6
       (connection 2 (snd (join_room 1 ''r1'' ''alice'' 5 (connection 1 init_server))))))))) =
     Some [''bob''] \<and>
   fst (disconnect 1 (snd (join_room 2 ''r1'' ''bob'' 6
       (connection 2 (snd (join_room 1 ''r1'' ''alice'' 5 (connection 1 init_server))))))) =
     [(2, UserLeft ''alice'' [''bob''])]"
proof -
  let ?s1 = "snd (join_room 1 ''r1'' ''alice'' 5 (connection 1 init_server))"
  let ?s = "snd (join_room 2 ''r1'' ''bob'' 6 (connection 2 ?s1))"
  let ?k = "\<lparr>sock_rooms = [''r1''], sock_roomId = Some ''r1'', sock_username = Some ''alice''\<rparr>"
  have inv: "server_inv ?s"
    by (intro join_room_inv [OF _ prod.collapse [symmetric]] connection_inv server_inv_init)
  have f: "faults (store ?s) = []" and m: "map_of (sockets ?s) 1 = Some ?k"
    and p: "participants_of ''r1'' (store ?s) = Some [''alice'', ''bob'']"
    and mem: "members ''r1'' (sockets ?s) = [1, 2]"
    by (simp_all add: eval_defs)
  have e: "\<exists>p \<in> set [''alice'', ''bob'']. p \<noteq> ''alice''" by simp
  from disconnect_keeps_others [OF inv f m _ _ _ _ p e] inv p e mem
  show ?thesis by simp
qed

text \<open>
  Claim C29: a socket whose bound user name is the empty string leaves no room when it
  disconnects: the handler's guard reads the empty name as absent, so the store is left
  as it was, the name stays in the participant list, and nobody is told.
\<close>

theorem disconnect_empty_username:
  assumes "map_of (sockets s) sid = Some k" "sock_username k = Some []"
  shows "store (snd (disconnect sid s)) = store s \<and> fst (disconnect sid s) = [] \<and>
         \<not> connected sid (sockets (snd (disconnect sid s)))"
  using assms disconnect_unbound [of s sid k] by simp

theorem disconnect_empty_username_witness:
  "map_of (sockets (snd (join_room 1 ''r1'' [] 5 (connection 1 init_server)))) 1 =
     Some \<lparr>sock_rooms = [''r1''], sock_roomId = Some ''r1'', sock_username = Some []\<rparr> \<and>
   participants_of ''r1'' (store (snd (disconnect 1
       (snd (join_room 1 ''r1'' [] 5 (connection 1 init_server)))))) = Some [[]] \<and>
   \<not> connected 1 (sockets (snd (disconnect 1
       (snd (join_room 1 ''r1'' [] 5 (connection 1 init_server))))))"
proof -
  let ?s = "snd (join_room 1 ''r1'' [] 5 (connection 1 init_server))"
  have m: "map_of (sockets ?s) 1 =
      Some \<lparr>sock_rooms = [''r1''], sock_roomId = Some ''r1'', sock_username = Some []\<rparr>"
    and p: "participants_of ''r1'' (store ?s) = Some [[]]"
    by (simp_all add: eval_defs)
  from disconnect_empty_username [OF m] m p show ?thesis by simp
qed

section \<open>Failures in the middle of a join\<close>

text \<open>
  Claim C31: when the room record of a join has been found or saved and the message query
  then throws, the caller receives only the error event and nobody else is told, yet the
  user is in the room's participant list and the socket is subscribed and bound to the
  room: the failed join is not undone.
\<close>

theorem join_room_failure_after_save:
  assumes "find_or_create_room rid u now (store s) = (Inr r, d1)" "faults d1 = True # bs"
  shows "fst (join_room sid rid u now s) = [(sid, ErrorEvent ''Failed to join room'')] \<and>
         participants_of rid (store (snd (join_room sid rid u now s))) =
           Some (add_participant u (participants_of rid (store s))) \<and>
         sockets (snd (join_room sid rid u now s)) = bind_socket sid rid u (sockets s)"
  using assms find_or_create_room_Inr(1,2) [OF assms(1)]
  by (simp add: join_room_def Let_def Query_exec_def socket_emit_def participants_of_def)

theorem join_room_failure_after_save_witness:
  "find_or_create_room ''r1'' ''alice'' 5
     (store ((connection 1 init_server)\<lparr>store := empty_db\<lparr>faults := [False, False, True]\<rparr>\<rparr>)) =
     (Inr \<lparr>room_oid = 0, room_roomId = ''r1'', room_participants = [''alice''],
           room_createdAt = 5, room_version = 0\<rparr>,
      empty_db\<lparr>rooms := [\<lparr>room_oid = 0, room_roomId = ''r1'', room_participants = [''alice''],
                         room_createdAt = 5, room_version = 0\<rparr>],
               next_oid := 1, faults := [True]\<rparr>) \<and>
   fst (join_room 1 ''r1'' ''alice'' 5
     ((connection 1 init_server)\<lparr>store := empty_db\<lparr>faults := [False, False, True]\<rparr>\<rparr>)) =
     [(1, ErrorEvent ''Failed to join room'')] \<and>
   participants_of ''r1'' (store (snd (join_room 1 ''r1'' ''alice'' 5
     ((connection 1 init_server)\<lparr>store := empty_db\<lparr>faults := [False, False, True]\<rparr>\<rparr>)))) =
     Some [''alice''] \<and>
   members ''r1'' (sockets (snd (join_room 1 ''r1'' ''alice'' 5
     ((connection 1 init_server)\<lparr>store := empty_db\<lparr>faults := [False, False, True]\<rparr>\<rparr>)))) = [1]"
proof -
  let ?s = "(connection 1 init_server)\<lparr>store := empty_db\<lparr>faults := [False, False, True]\<rparr>\<rparr>"
  let ?r = "\<lparr>room_oid = 0, room_roomId = ''r1'', room_participants = [''alice''],
             room_createdAt = 5, room_version = 0\<rparr>"
  have f: "find_or_create_room ''r1'' ''alice'' 5 (store ?s) =
      (Inr ?r, empty_db\<lparr>rooms := [?r], next_oid := 1, faults := [True]\<rparr>)"
    by (simp add: eval_defs)
  have b: "members ''r1'' (bind_socket 1 ''r1'' ''alice'' (sockets ?s)) = [1]"
    by (simp add: eval_defs)
  from join_room_failure_after_save [OF f, of "[]" 1] f b show ?thesis
    by (simp add: eval_defs)
qed

section \<open>Who is told what\<close>

lemma error_in_socket_emit:
  "(r, ErrorEvent m) \<in> set (socket_emit sid ev) \<Longrightarrow> r = sid"
  by (simp add: socket_emit_def)

lemma no_error_in_broadcast:
  "(\<And>m. ev \<noteq> ErrorEvent m) \<Longrightarrow> (r, ErrorEvent m) \<notin> set (io_to_emit rid ev t)"
  "(\<And>m. ev \<noteq> ErrorEvent m) \<Longrightarrow> (r, ErrorEvent m) \<notin> set (socket_to_emit sid rid ev t)"
  by (auto simp: io_to_emit_def socket_to_emit_def)

lemma leave_room_emits:
  assumes "leave_room sid rid u t d = (es, d')" "e \<in> set es"
  shows "(\<exists>ps. snd e = UserLeft u ps) \<and> fst e \<in> set (members rid t) \<and> fst e \<noteq> sid"
  using assms
  by (auto simp: leave_room_def Let_def socket_to_emit_def
      split: prod.splits sum.splits option.splits if_splits)

lemma disconnect_emits:
  assumes "e \<in> set (fst (disconnect sid s))"
  shows "(\<exists>u ps. snd e = UserLeft u ps) \<and> connected (fst e) (sockets s) \<and> fst e \<noteq> sid"
proof -
  from assms obtain rid u d' es where "leave_room sid rid u (AList.delete sid (sockets s)) (store s) = (es, d')"
    and "e \<in> set es"
    by (auto simp: disconnect_def Let_def split: option.splits if_splits prod.splits)
  from leave_room_emits [OF this] show ?thesis
    by (auto dest!: members_subset_connected)
qed

text \<open>
  Claim C33: whatever the event and whichever store calls fail, an error event is only
  ever delivered to the socket whose event was being handled.
\<close>

theorem error_only_to_caller:
  assumes "(r, ErrorEvent m) \<in> set (fst (dispatch sid now ev s))"
  shows "r = sid"
proof (cases "connected sid (sockets s)")
  case False
  with assms show ?thesis by (simp add: dispatch_def)
next
  case True
  with assms have h: "(r, ErrorEvent m) \<in> set (fst (handle sid now ev s))"
    by (simp add: dispatch_def)
  show ?thesis
  proof (cases ev)
    case (ClearRoomChat rid)
    with h show ?thesis
      by (auto simp: clear_room_chat_def no_error_in_broadcast
          split: prod.splits sum.splits dest: error_in_socket_emit)
  next
    case (JoinRoom rid u)
    with h show ?thesis
      by (auto simp: join_room_def Let_def no_error_in_broadcast socket_emit_def
          split: prod.splits sum.splits)
  next
    case (SendMessage rid u body)
    with h show ?thesis
      by (auto simp: send_message_def no_error_in_broadcast
          split: prod.splits sum.splits dest: error_in_socket_emit)
  next
    case (Typing rid u b)
    with h show ?thesis by (simp add: typing_def no_error_in_broadcast)
  next
    case Disconnect
    with h disconnect_emits [of "(r, ErrorEvent m)" sid s] show ?thesis by auto
  qed
qed

theorem error_only_to_caller_witness:
  "(1, ErrorEvent ''Failed to clear chat'') \<in>
     set (fst (dispatch 1 0 (ClearRoomChat ''r1'')
        ((connection 1 init_server)\<lparr>store := empty_db\<lparr>faults := [True]\<rparr>\<rparr>))) \<and>
   fst (dispatch 1 0 (ClearRoomChat ''r1'')
        ((connection 1 init_server)\<lparr>store := empty_db\<lparr>faults := [True]\<rparr>\<rparr>)) =
     [(1, ErrorEvent ''Failed to clear chat'')]"
proof -
  let ?s = "(connection 1 init_server)\<lparr>store := empty_db\<lparr>faults := [True]\<rparr>\<rparr>"
  have h: "(1, ErrorEvent ''Failed to clear chat'') \<in>
      set (fst (dispatch 1 0 (ClearRoomChat ''r1'') ?s))"
    by (simp add: eval_defs)
  from error_only_to_caller [OF h] h show ?thesis by (simp add: eval_defs)
qed

text \<open>
  Claim C40: a typing event changes nothing in the server state, and every member of
  the room's group except the socket that sent it receives exactly one event for it,
  the user-typing event with the given name and flag; the sender and the sockets
  outside the group receive nothing.
\<close>

theorem typing_reaches_others:
  assumes "transport_inv (sockets s)"
  shows "snd (typing sid rid u b s) = s \<and>
         received r (fst (typing sid rid u b s)) =
           (if r \<in> set (members rid (sockets s)) \<and> r \<noteq> sid then [UserTyping u b] else [])"
  using assms by (simp add: typing_def received_socket_to_emit transport_inv_def)

theorem typing_reaches_others_witness:
  "transport_inv
     [(1, \<lparr>sock_rooms = [''r1''], sock_roomId = Some ''r1'', sock_username = Some ''alice''\<rparr>),
      (2, \<lparr>sock_rooms = [''r1''], sock_roomId = Some ''r1'', sock_username = Some ''bob''\<rparr>)] \<and>
   received 2 (fst (typing 1 ''r1'' ''alice'' True \<lparr>store = empty_db, sockets =
     [(1, \<lparr>sock_rooms = [''r1''], sock_roomId = Some ''r1'', sock_username = Some ''alice''\<rparr>),
      (2, \<lparr>sock_rooms = [''r1''], sock_roomId = Some ''r1'', sock_username = Some ''bob''\<rparr>)]\<rparr>)) =
     [UserTyping ''alice'' True] \<and>
   received 1 (fst (typing 1 ''r1'' ''alice'' True \<lparr>store = empty_db, sockets =
     [(1, \<lparr>sock_rooms = [''r1''], sock_roomId = Some ''r1'', sock_username = Some ''alice''\<rparr>),
      (2, \<lparr>sock_rooms = [''r1''], sock_roomId = Some ''r1'', sock_username = Some ''bob''\<rparr>)]\<rparr>)) = []"
proof -
  let ?s = "\<lparr>store = empty_db, sockets =
     [(1, \<lparr>sock_rooms = [''r1''], sock_roomId = Some ''r1'', sock_username = Some ''alice''\<rparr>),
      (2, \<lparr>sock_rooms = [''r1''], sock_roomId = Some ''r1'', sock_username = Some ''bob''\<rparr>)]\<rparr>"
  have t: "transport_inv (sockets ?s)" by (simp add: transport_inv_def socket_ok_def)
  from typing_reaches_others [OF t, of 1 "''r1''" "''alice''" True 2]
    typing_reaches_others [OF t, of 1 "''r1''" "''alice''" True 1] t
  show ?thesis by (simp add: members_def)
qed

text \<open>
  Claim C39: every handler, for every event and every schedule of store failures, leaves
  a well-formed server well formed.
\<close>

theorem dispatch_preserves_server_inv:
  "server_inv s \<Longrightarrow> server_inv (snd (dispatch sid now ev s))"
  by (rule dispatch_inv [OF _ prod.collapse [symmetric]])

theorem dispatch_preserves_server_inv_witness:
  "server_inv (connection 1 init_server) \<and>
   server_inv (snd (dispatch 1 5 (JoinRoom ''r1'' ''alice'') (connection 1 init_server)))"
  using dispatch_preserves_server_inv [of "connection 1 init_server" 1 5 "JoinRoom ''r1'' ''alice''"]
  by (simp add: connection_inv server_inv_init)

end
