(* ===== verification/Chat_Spec.thy ===== *)
theory Chat_Spec
  imports Dispatcher
begin

text \<open>
  What the chat relay promises, without the store and the transport of \<^verbatim>\<open>src/server.js\<close>:
  a roster that gives each existing room its participants, a history that gives each
  room its messages, and the sessions of the connected sockets. A step of the
  specification relates a state and an inbound event of a socket to the set of
  deliveries and the state after it. Every event has the step of its success and the
  steps of its failures, since a store call can always throw. The lemmas show that the
  steps keep the state well formed and deliver only to connected sockets. That the
  handlers of theory \<open>Dispatcher\<close> implement these steps is shown in theory \<open>Refinement\<close>.
\<close>

section \<open>State\<close>

record session =
  groups :: "room_id set"
  bound :: "(room_id \<times> username) option"

record chat =
  roster :: "room_id \<rightharpoonup> username list"
  history :: "room_id \<Rightarrow> message list"
  sessions :: "socket_id \<rightharpoonup> session"

definition init_chat :: chat where
  "init_chat = \<lparr>roster = Map.empty, history = (\<lambda>rid. []), sessions = Map.empty\<rparr>"

definition subscribers :: "room_id \<Rightarrow> chat \<Rightarrow> socket_id set" where
  "subscribers rid c = {sid. \<exists>k. sessions c sid = Some k \<and> rid \<in> groups k}"

definition to_room :: "room_id \<Rightarrow> out_event \<Rightarrow> chat \<Rightarrow> emit set" where
  "to_room rid ev c = (\<lambda>r. (r, ev)) ` subscribers rid c"

definition to_others :: "socket_id \<Rightarrow> room_id \<Rightarrow> out_event \<Rightarrow> chat \<Rightarrow> emit set" where
  "to_others sid rid ev c = (\<lambda>r. (r, ev)) ` (subscribers rid c - {sid})"

definition first_page :: "message list \<Rightarrow> message list" where
  "first_page ms = take 50 (sort_key msg_timestamp ms)"

section \<open>Operations\<close>

definition spec_connect :: "socket_id \<Rightarrow> chat \<Rightarrow> chat" where
  "spec_connect sid c =
     (if sessions c sid = None
      then c\<lparr>sessions := (sessions c)(sid \<mapsto> \<lparr>groups = {}, bound = None\<rparr>)\<rparr> else c)"

definition spec_join :: "socket_id \<Rightarrow> room_id \<Rightarrow> username \<Rightarrow> chat \<Rightarrow> chat" where
  "spec_join sid rid u c =
     c\<lparr>roster := (roster c)(rid \<mapsto> add_participant u (roster c rid)),
       sessions := (sessions c)(sid :=
         map_option (\<lambda>k. \<lparr>groups = insert rid (groups k), bound = Some (rid, u)\<rparr>)
           (sessions c sid))\<rparr>"

definition spec_post :: "message \<Rightarrow> chat \<Rightarrow> chat" where
  "spec_post m c = c\<lparr>history := (history c)(msg_roomId m := history c (msg_roomId m) @ [m])\<rparr>"

definition spec_clear :: "room_id \<Rightarrow> chat \<Rightarrow> chat" where
  "spec_clear rid c = c\<lparr>history := (history c)(rid := [])\<rparr>"

definition spec_leave :: "room_id \<Rightarrow> username \<Rightarrow> chat \<Rightarrow> chat" where
  "spec_leave rid u c = c\<lparr>roster := (roster c)(rid := drop_participant u (roster c rid))\<rparr>"

definition spec_close :: "socket_id \<Rightarrow> chat \<Rightarrow> chat" where
  "spec_close sid c = c\<lparr>sessions := (sessions c)(sid := None)\<rparr>"

lemmas spec_defs =
  init_chat_def subscribers_def to_room_def to_others_def first_page_def spec_connect_def
  spec_join_def spec_post_def spec_clear_def spec_leave_def spec_close_def

section \<open>Steps\<close>

text \<open>
  \<open>spec_step c sid now ev es c'\<close>: in state \<open>c\<close> the event \<open>ev\<close> of socket \<open>sid\<close>, handled at
  time \<open>now\<close>, may deliver \<open>es\<close> and leave \<open>c'\<close>. A join has two failures: one that changed
  nothing, and one after the roster and the session were written. A disconnect always
  closes the session; it leaves the room when the session is bound to a room and a
  user, both non-empty, and the store did not fail.
\<close>

inductive spec_step ::
  "chat \<Rightarrow> socket_id \<Rightarrow> timestamp \<Rightarrow> in_event \<Rightarrow> emit set \<Rightarrow> chat \<Rightarrow> bool" where
  join:
    "rid \<noteq> [] \<Longrightarrow> ps = add_participant u (roster c rid) \<Longrightarrow> c' = spec_join sid rid u c \<Longrightarrow>
     spec_step c sid now (JoinRoom rid u)
       (insert (sid, RoomJoined rid ps (first_page (history c rid)))
          (to_others sid rid (UserJoined u ps) c')) c'"
| join_unanswered:
    "rid \<noteq> [] \<Longrightarrow>
     spec_step c sid now (JoinRoom rid u) {(sid, ErrorEvent ''Failed to join room'')}
       (spec_join sid rid u c)"
| join_failed:
    "spec_step c sid now (JoinRoom rid u) {(sid, ErrorEvent ''Failed to join room'')} c"
| send:
    "rid \<noteq> [] \<Longrightarrow> sender \<noteq> [] \<Longrightarrow> txt \<noteq> [] \<Longrightarrow> \<forall>x. mid \<notin> msg_id ` set (history c x) \<Longrightarrow>
     spec_step c sid now (SendMessage rid sender txt)
       (to_room rid (NewMessage mid rid sender txt now) c)
       (spec_post \<lparr>msg_id = mid, msg_roomId = rid, msg_sender = sender, msg_text = txt,
                   msg_timestamp = now\<rparr> c)"
| send_failed:
    "spec_step c sid now (SendMessage rid sender txt)
       {(sid, ErrorEvent ''Failed to send message'')} c"
| clear:
    "spec_step c sid now (ClearRoomChat rid) (to_room rid RoomChatCleared c) (spec_clear rid c)"
| clear_failed:
    "spec_step c sid now (ClearRoomChat rid) {(sid, ErrorEvent ''Failed to clear chat'')} c"
| typing:
    "spec_step c sid now (Typing rid u b) (to_others sid rid (UserTyping u b) c) c"
| leave:
    "sessions c sid = Some k \<Longrightarrow> bound k = Some (rid, u) \<Longrightarrow> rid \<noteq> [] \<Longrightarrow> u \<noteq> [] \<Longrightarrow>
     c' = spec_close sid (spec_leave rid u c) \<Longrightarrow>
     es = (case roster c' rid of None \<Rightarrow> {} | Some ps \<Rightarrow> to_others sid rid (UserLeft u ps) c') \<Longrightarrow>
     spec_step c sid now Disconnect es c'"
| close:
    "spec_step c sid now Disconnect {} (spec_close sid c)"

inductive_cases spec_step_JoinRoomE [elim!]: "spec_step c sid now (JoinRoom rid u) es c'"
inductive_cases spec_step_SendMessageE [elim!]: "spec_step c sid now (SendMessage rid sender txt) es c'"
inductive_cases spec_step_ClearRoomChatE [elim!]: "spec_step c sid now (ClearRoomChat rid) es c'"
inductive_cases spec_step_TypingE [elim!]: "spec_step c sid now (Typing rid u b) es c'"
inductive_cases spec_step_DisconnectE [elim!]: "spec_step c sid now Disconnect es c'"

text \<open>The states the specification reaches: sockets connect, and connected sockets send events.\<close>

inductive spec_reachable :: "chat \<Rightarrow> bool" where
  init: "spec_reachable init_chat"
| connect: "spec_reachable c \<Longrightarrow> spec_reachable (spec_connect sid c)"
| event:
    "spec_reachable c \<Longrightarrow> sessions c sid \<noteq> None \<Longrightarrow> spec_step c sid now ev es c' \<Longrightarrow>
     spec_reachable c'"

section \<open>Well-formed states\<close>

text \<open>
  A room on the roster has a non-empty id and a non-empty participant list that names
  nobody twice; the history of a room holds messages of that room with non-empty
  fields; and a session bound to a room is subscribed to it.
\<close>

definition roster_ok :: "chat \<Rightarrow> bool" where
  "roster_ok c \<longleftrightarrow> (\<forall>rid ps. roster c rid = Some ps \<longrightarrow> rid \<noteq> [] \<and> ps \<noteq> [] \<and> distinct ps)"

definition history_ok :: "chat \<Rightarrow> bool" where
  "history_ok c \<longleftrightarrow> (\<forall>rid. \<forall>m \<in> set (history c rid). msg_roomId m = rid \<and> validate_message m)"

definition sessions_ok :: "chat \<Rightarrow> bool" where
  "sessions_ok c \<longleftrightarrow>
     (\<forall>sid k rid u. sessions c sid = Some k \<longrightarrow> bound k = Some (rid, u) \<longrightarrow> rid \<in> groups k)"

definition chat_inv :: "chat \<Rightarrow> bool" where
  "chat_inv c \<longleftrightarrow> roster_ok c \<and> history_ok c \<and> sessions_ok c"

lemma add_participant_nonempty [simp]: "add_participant u ps \<noteq> []"
  by (auto simp: add_participant_def split: option.splits)

lemma drop_participant_SomeD:
  "drop_participant u ps = Some xs \<Longrightarrow> \<exists>ys. ps = Some ys \<and> xs = filter (\<lambda>p. p \<noteq> u) ys \<and> xs \<noteq> []"
  by (auto simp: drop_participant_def split: option.splits if_splits)

lemma chat_inv_init: "chat_inv init_chat"
  by (simp add: chat_inv_def roster_ok_def history_ok_def sessions_ok_def init_chat_def)

lemma chat_inv_connect: "chat_inv c \<Longrightarrow> chat_inv (spec_connect sid c)"
  by (auto simp: chat_inv_def roster_ok_def history_ok_def sessions_ok_def spec_connect_def)

lemma chat_inv_join:
  assumes "chat_inv c" "rid \<noteq> []"
  shows "chat_inv (spec_join sid rid u c)"
proof -
  from assms have "roster_ok (spec_join sid rid u c)"
    by (auto simp: chat_inv_def roster_ok_def spec_join_def intro!: add_participant_distinct)
  moreover from assms have "sessions_ok (spec_join sid rid u c)"
    by (auto simp: chat_inv_def sessions_ok_def spec_join_def)
  moreover from assms have "history_ok (spec_join sid rid u c)"
    by (simp add: chat_inv_def history_ok_def spec_join_def)
  ultimately show ?thesis by (simp add: chat_inv_def)
qed

lemma chat_inv_post:
  "chat_inv c \<Longrightarrow> validate_message m \<Longrightarrow> chat_inv (spec_post m c)"
  by (auto simp: chat_inv_def roster_ok_def history_ok_def sessions_ok_def spec_post_def)

lemma chat_inv_clear: "chat_inv c \<Longrightarrow> chat_inv (spec_clear rid c)"
  by (auto simp: chat_inv_def roster_ok_def history_ok_def sessions_ok_def spec_clear_def)

lemma chat_inv_leave: "chat_inv c \<Longrightarrow> chat_inv (spec_leave rid u c)"
  by (auto simp: chat_inv_def roster_ok_def history_ok_def sessions_ok_def spec_leave_def
      dest!: drop_participant_SomeD)

lemma chat_inv_close: "chat_inv c \<Longrightarrow> chat_inv (spec_close sid c)"
  by (auto simp: chat_inv_def roster_ok_def history_ok_def sessions_ok_def spec_close_def)

lemmas chat_inv_ops =
  chat_inv_connect chat_inv_join chat_inv_post chat_inv_clear chat_inv_leave chat_inv_close

lemma spec_step_inv: "spec_step c sid now ev es c' \<Longrightarrow> chat_inv c \<Longrightarrow> chat_inv c'"
  by (induction rule: spec_step.induct) (simp_all add: chat_inv_ops validate_message_def)

lemma spec_reachable_inv: "spec_reachable c \<Longrightarrow> chat_inv c"
  by (induction rule: spec_reachable.induct)
     (auto intro: chat_inv_init chat_inv_connect spec_step_inv)

section \<open>Who is told\<close>

lemma subscribers_connected: "r \<in> subscribers rid c \<Longrightarrow> sessions c r \<noteq> None"
  by (auto simp: subscribers_def)

lemma subscribers_join:
  "sessions c sid \<noteq> None \<Longrightarrow>
     subscribers x (spec_join sid rid u c) =
       (if x = rid then insert sid (subscribers x c) else subscribers x c)"
  by (auto simp: subscribers_def spec_join_def split: if_splits)

lemma subscribers_close: "subscribers x (spec_close sid c) = subscribers x c - {sid}"
  by (auto simp: subscribers_def spec_close_def)

lemma subscribers_leave [simp]: "subscribers x (spec_leave rid u c) = subscribers x c"
  by (simp add: subscribers_def spec_leave_def)

lemma spec_step_recipients:
  assumes "spec_step c sid now ev es c'" "sessions c sid \<noteq> None" "(r, e) \<in> es"
  shows "sessions c r \<noteq> None"
  using assms
  by (induction rule: spec_step.induct)
     (auto simp: to_room_def to_others_def subscribers_join subscribers_close
        dest: subscribers_connected split: option.splits)

lemma spec_step_errors:
  assumes "spec_step c sid now ev es c'" "(r, ErrorEvent m) \<in> es"
  shows "r = sid"
  using assms
  by (induction rule: spec_step.induct)
     (auto simp: to_room_def to_others_def split: option.splits)

lemma spec_step_history:
  assumes "spec_step c sid now ev es c'"
  shows "history c' x = history c x \<or>
         (\<exists>rid. ev = ClearRoomChat rid \<and> x = rid \<and> history c' x = []) \<or>
         (\<exists>m sender txt. ev = SendMessage x sender txt \<and> history c' x = history c x @ [m])"
  using assms
  by (induction rule: spec_step.induct) (auto simp: spec_defs)

lemma spec_step_other_rooms:
  assumes "spec_step c sid now ev es c'" "sessions c sid = Some k"
    and "ev \<noteq> Disconnect \<or> (\<forall>u. bound k \<noteq> Some (x, u))" "\<forall>u. ev \<noteq> JoinRoom x u"
  shows "roster c' x = roster c x"
  using assms
  by (induction rule: spec_step.induct) (auto simp: spec_defs)

end
