(* ===== verification/Query_Surface.thy ===== *)
theory Query_Surface
  imports Persistence
begin

text \<open>
  The two read-only routes of \<^verbatim>\<open>src/server.js\<close>: \<^verbatim>\<open>GET /api/rooms/:roomId\<close> and
  \<^verbatim>\<open>GET /api/rooms/:roomId/messages\<close>. A route takes the store and returns the response
  it sends (status and JSON body) with the store it leaves; a store call that throws
  is answered with status 500.
\<close>

section \<open>Responses\<close>

datatype http_body = RoomJson room | MessagesJson "message list" | ErrorJson string

record http_response =
  status :: nat
  body :: http_body

section \<open>Routes\<close>

definition get_room :: "room_id \<Rightarrow> db \<Rightarrow> http_response \<times> db" where
  "get_room rid d =
     (case Room_findOne rid d of
        (Inl e, d') \<Rightarrow> (\<lparr>status = 500, body = ErrorJson ''Server error''\<rparr>, d')
      | (Inr None, d') \<Rightarrow> (\<lparr>status = 404, body = ErrorJson ''Room not found''\<rparr>, d')
      | (Inr (Some r), d') \<Rightarrow> (\<lparr>status = 200, body = RoomJson r\<rparr>, d'))"

definition room_messages_query :: "room_id \<Rightarrow> msg_query" where
  "room_messages_query rid = Query_sort Asc (Message_find rid)"

definition get_room_messages :: "room_id \<Rightarrow> db \<Rightarrow> http_response \<times> db" where
  "get_room_messages rid d =
     (case Query_exec (room_messages_query rid) d of
        (Inl e, d') \<Rightarrow> (\<lparr>status = 500, body = ErrorJson ''Server error''\<rparr>, d')
      | (Inr ms, d') \<Rightarrow> (\<lparr>status = 200, body = MessagesJson ms\<rparr>, d'))"

lemmas route_defs = get_room_def room_messages_query_def get_room_messages_def

section \<open>What the routes answer\<close>

lemma run_room_messages_query:
  "run_query (room_messages_query rid) d = sort_key msg_timestamp (room_messages rid d)"
  by (simp add: room_messages_query_def run_query_def Query_sort_def Message_find_def)

lemma get_room_ok:
  "faults d = [] \<Longrightarrow>
     get_room rid d =
       (case find_room rid d of
          None \<Rightarrow> \<lparr>status = 404, body = ErrorJson ''Room not found''\<rparr>
        | Some r \<Rightarrow> \<lparr>status = 200, body = RoomJson r\<rparr>, d)"
  by (simp add: get_room_def Room_findOne_ok split: option.splits)

lemma get_room_messages_ok:
  "faults d = [] \<Longrightarrow>
     get_room_messages rid d =
       (\<lparr>status = 200, body = MessagesJson (sort_key msg_timestamp (room_messages rid d))\<rparr>, d)"
  by (simp add: get_room_messages_def Query_exec_ok run_room_messages_query)

lemma get_room_fault:
  "faults d = True # bs \<Longrightarrow>
     get_room rid d = (\<lparr>status = 500, body = ErrorJson ''Server error''\<rparr>, d\<lparr>faults := bs\<rparr>)"
  by (simp add: get_room_def Room_findOne_def)

lemma get_room_messages_fault:
  "faults d = True # bs \<Longrightarrow>
     get_room_messages rid d =
       (\<lparr>status = 500, body = ErrorJson ''Server error''\<rparr>, d\<lparr>faults := bs\<rparr>)"
  by (simp add: get_room_messages_def Query_exec_def)

text \<open>A route reads: it changes no collection, whatever the fault schedule.\<close>

lemma get_room_frame:
  assumes "get_room rid d = (r, d')"
  shows "rooms d' = rooms d \<and> messages d' = messages d \<and> next_oid d' = next_oid d"
proof -
  obtain res d1 where f: "Room_findOne rid d = (res, d1)" by force
  from Room_findOne_result [OF f] assms f show ?thesis
    by (auto simp: get_room_def split: option.splits)
qed

lemma get_room_messages_frame:
  assumes "get_room_messages rid d = (r, d')"
  shows "rooms d' = rooms d \<and> messages d' = messages d \<and> next_oid d' = next_oid d"
proof -
  obtain res d1 where f: "Query_exec (room_messages_query rid) d = (res, d1)" by force
  from Query_exec_result [OF f] assms f show ?thesis
    by (auto simp: get_room_messages_def)
qed

lemma get_room_inv: "db_inv d \<Longrightarrow> get_room rid d = (r, d') \<Longrightarrow> db_inv d'"
  by (drule get_room_frame) (auto elim: db_inv_frame)

lemma get_room_messages_inv: "db_inv d \<Longrightarrow> get_room_messages rid d = (r, d') \<Longrightarrow> db_inv d'"
  by (drule get_room_messages_frame) (auto elim: db_inv_frame)

section \<open>Properties of the routes\<close>

text \<open>
  Claim C36: the room route answers 200 with the stored room of that id, 404 when no room
  has that id, and 500 only when its store call throws, that is when the next outcome
  the failure schedule holds is a failure; it never changes a collection.
\<close>

theorem get_room_answers:
  assumes "get_room rid d = (resp, d')"
  shows "rooms d' = rooms d \<and> messages d' = messages d \<and>
         (faults d = [] \<longrightarrow> d' = d) \<and>
         ((\<exists>r. resp = \<lparr>status = 200, body = RoomJson r\<rparr> \<and> find_room rid d = Some r) \<or>
          resp = \<lparr>status = 404, body = ErrorJson ''Room not found''\<rparr> \<and> find_room rid d = None \<or>
          resp = \<lparr>status = 500, body = ErrorJson ''Server error''\<rparr> \<and>
            (\<exists>bs. faults d = True # bs))"
proof (cases "faults d")
  case Nil
  with assms show ?thesis
    by (cases "find_room rid d") (auto simp: get_room_ok)
next
  case (Cons b bs)
  show ?thesis
  proof (cases b)
    case True
    with Cons assms show ?thesis by (auto simp: get_room_fault)
  next
    case False
    with Cons assms show ?thesis
      by (cases "find_room rid d") (auto simp: get_room_def Room_findOne_def)
  qed
qed

theorem get_room_answers_witness:
  "get_room ''r1'' (empty_db\<lparr>rooms :=
       [\<lparr>room_oid = 0, room_roomId = ''r1'', room_participants = [''alice''], room_createdAt = 5, room_version = 0\<rparr>]\<rparr>) =
     (\<lparr>status = 200,
       body = RoomJson \<lparr>room_oid = 0, room_roomId = ''r1'', room_participants = [''alice''], room_createdAt = 5, room_version = 0\<rparr>\<rparr>,
      empty_db\<lparr>rooms :=
       [\<lparr>room_oid = 0, room_roomId = ''r1'', room_participants = [''alice''], room_createdAt = 5, room_version = 0\<rparr>]\<rparr>) \<and>
   find_room ''r1'' (empty_db\<lparr>rooms :=
       [\<lparr>room_oid = 0, room_roomId = ''r1'', room_participants = [''alice''], room_createdAt = 5, room_version = 0\<rparr>]\<rparr>) =
     Some \<lparr>room_oid = 0, room_roomId = ''r1'', room_participants = [''alice''], room_createdAt = 5, room_version = 0\<rparr>"
proof -
  let ?r = "\<lparr>room_oid = 0, room_roomId = ''r1'', room_participants = [''alice''], room_createdAt = 5, room_version = 0\<rparr>"
  let ?d = "empty_db\<lparr>rooms := [?r]\<rparr>"
  have h: "get_room ''r1'' ?d = (\<lparr>status = 200, body = RoomJson ?r\<rparr>, ?d)"
    by (simp add: get_room_ok empty_db_def find_room_def)
  from get_room_answers [OF h] h show ?thesis by simp
qed

text \<open>
  Claim C37: on a store that does not fail, the messages route answers 200 with all the
  messages of the room, each exactly once and none of another room, in ascending order
  of timestamp, without any bound on their number, and leaves the store as it was.
\<close>

theorem get_room_messages_complete_sorted:
  assumes "faults d = []"
  shows "\<exists>ms. get_room_messages rid d = (\<lparr>status = 200, body = MessagesJson ms\<rparr>, d) \<and>
           mset ms = mset (room_messages rid d) \<and> sorted (map msg_timestamp ms)"
  using assms by (simp add: get_room_messages_ok)

theorem get_room_messages_complete_sorted_witness:
  "faults (empty_db\<lparr>messages :=
      [\<lparr>msg_id = 0, msg_roomId = ''r1'', msg_sender = ''a'', msg_text = ''x'', msg_timestamp = 7\<rparr>,
       \<lparr>msg_id = 1, msg_roomId = ''r2'', msg_sender = ''c'', msg_text = ''z'', msg_timestamp = 4\<rparr>,
       \<lparr>msg_id = 2, msg_roomId = ''r1'', msg_sender = ''b'', msg_text = ''y'', msg_timestamp = 3\<rparr>]\<rparr>) = [] \<and>
   fst (get_room_messages ''r1'' (empty_db\<lparr>messages :=
      [\<lparr>msg_id = 0, msg_roomId = ''r1'', msg_sender = ''a'', msg_text = ''x'', msg_timestamp = 7\<rparr>,
       \<lparr>msg_id = 1, msg_roomId = ''r2'', msg_sender = ''c'', msg_text = ''z'', msg_timestamp = 4\<rparr>,
       \<lparr>msg_id = 2, msg_roomId = ''r1'', msg_sender = ''b'', msg_text = ''y'', msg_timestamp = 3\<rparr>]\<rparr>)) =
     \<lparr>status = 200, body = MessagesJson
      [\<lparr>msg_id = 2, msg_roomId = ''r1'', msg_sender = ''b'', msg_text = ''y'', msg_timestamp = 3\<rparr>,
       \<lparr>msg_id = 0, msg_roomId = ''r1'', msg_sender = ''a'', msg_text = ''x'', msg_timestamp = 7\<rparr>]\<rparr>"
  using get_room_messages_complete_sorted [of "empty_db\<lparr>messages :=
      [\<lparr>msg_id = 0, msg_roomId = ''r1'', msg_sender = ''a'', msg_text = ''x'', msg_timestamp = 7\<rparr>,
       \<lparr>msg_id = 1, msg_roomId = ''r2'', msg_sender = ''c'', msg_text = ''z'', msg_timestamp = 4\<rparr>,
       \<lparr>msg_id = 2, msg_roomId = ''r1'', msg_sender = ''b'', msg_text = ''y'', msg_timestamp = 3\<rparr>]\<rparr>" "''r1''"]
  by (simp add: empty_db_def get_room_messages_ok room_messages_def)

end
