(* ===== verification/Chat_System.thy ===== *)
theory Chat_System
  imports Dispatcher Query_Surface
begin

text \<open>
  The server as one transition system: what can happen to it (a client connects, a
  connected socket sends an event, a route is requested, the environment decides which
  of the coming store calls fail) and the state each such action leaves. Handlers and
  routes run to completion, one action after the other; \<open>exec\<close> and \<open>reactions\<close> run a
  list of actions, and \<open>reachable\<close> are the states the server can be in.
\<close>

section \<open>Actions\<close>

datatype action =
    Connect socket_id
  | Event socket_id timestamp in_event
  | GetRoom room_id
  | GetRoomMessages room_id
  | Faults "bool list"

datatype reaction = Silent | Emitted "emit list" | Replied http_response

fun step :: "action \<Rightarrow> server \<Rightarrow> reaction \<times> server" where
  "step (Connect sid) s = (Silent, connection sid s)"
| "step (Event sid now ev) s = (case dispatch sid now ev s of (es, s') \<Rightarrow> (Emitted es, s'))"
| "step (GetRoom rid) s = (case get_room rid (store s) of (r, d) \<Rightarrow> (Replied r, s\<lparr>store := d\<rparr>))"
| "step (GetRoomMessages rid) s =
     (case get_room_messages rid (store s) of (r, d) \<Rightarrow> (Replied r, s\<lparr>store := d\<rparr>))"
| "step (Faults bs) s = (Silent, s\<lparr>store := (store s)\<lparr>faults := bs\<rparr>\<rparr>)"

fun exec :: "action list \<Rightarrow> server \<Rightarrow> server" where
  "exec [] s = s"
| "exec (a # as) s = exec as (snd (step a s))"

fun reactions :: "action list \<Rightarrow> server \<Rightarrow> reaction list" where
  "reactions [] s = []"
| "reactions (a # as) s = fst (step a s) # reactions as (snd (step a s))"

inductive reachable :: "server \<Rightarrow> bool" where
  init: "reachable init_server"
| step: "reachable s \<Longrightarrow> reachable (snd (step a s))"

section \<open>Runs\<close>

lemma exec_append [simp]: "exec (as @ bs) s = exec bs (exec as s)"
  by (induction as arbitrary: s) auto

lemma reactions_append [simp]: "reactions (as @ bs) s = reactions as s @ reactions bs (exec as s)"
  by (induction as arbitrary: s) auto

lemma length_reactions [simp]: "length (reactions as s) = length as"
  by (induction as arbitrary: s) auto

lemma reachable_exec: "reachable s \<Longrightarrow> reachable (exec as s)"
  by (induction as arbitrary: s) (auto intro: reachable.step)

lemma reachable_iff_exec: "reachable s \<longleftrightarrow> (\<exists>as. s = exec as init_server)"
proof
  assume "reachable s"
  then show "\<exists>as. s = exec as init_server"
  proof (induction rule: reachable.induct)
    case init
    have "init_server = exec [] init_server" by simp
    then show ?case by blast
  next
    case (step s a)
    then obtain as where "s = exec as init_server" by blast
    then have "snd (step a s) = exec (as @ [a]) init_server" by simp
    then show ?case by blast
  qed
next
  assume "\<exists>as. s = exec as init_server"
  then show "reachable s" by (auto intro: reachable_exec reachable.init)
qed

section \<open>Every action keeps the server well formed\<close>

lemma step_inv: "server_inv s \<Longrightarrow> server_inv (snd (step a s))"
proof (cases a)
  case (Connect sid)
  then show "server_inv s \<Longrightarrow> ?thesis" by (simp add: connection_inv)
next
  case (Event sid now ev)
  then show "server_inv s \<Longrightarrow> ?thesis"
    by (cases "dispatch sid now ev s") (auto elim: dispatch_inv)
next
  case (GetRoom rid)
  then show "server_inv s \<Longrightarrow> ?thesis"
    by (cases "get_room rid (store s)") (auto simp: server_inv_def elim: get_room_inv)
next
  case (GetRoomMessages rid)
  then show "server_inv s \<Longrightarrow> ?thesis"
    by (cases "get_room_messages rid (store s)")
       (auto simp: server_inv_def elim: get_room_messages_inv)
next
  case (Faults bs)
  then show "server_inv s \<Longrightarrow> ?thesis" by (simp add: server_inv_def)
qed

lemma exec_inv: "server_inv s \<Longrightarrow> server_inv (exec as s)"
  by (induction as arbitrary: s) (auto intro: step_inv)

lemma reachable_inv: "reachable s \<Longrightarrow> server_inv s"
  by (induction rule: reachable.induct) (auto intro: server_inv_init step_inv)

section \<open>Reachable states\<close>

text \<open>
  Claim C1: every state the server can reach from its start, through any sequence of
  connections, socket events, route requests and store failures, is well formed: room
  ids are unique, every stored room has a non-empty id and a non-empty participant list
  without duplicates, every stored message has its required fields and a unique id,
  socket ids are unique, and a socket bound to a room is subscribed to it.
\<close>

theorem reachable_server_inv: "reachable s \<Longrightarrow> server_inv s"
  by (rule reachable_inv)

theorem reachable_server_inv_witness:
  "reachable (exec [Connect 1, Event 1 5 (JoinRoom ''r1'' ''alice'')] init_server) \<and>
   server_inv (exec [Connect 1, Event 1 5 (JoinRoom ''r1'' ''alice'')] init_server)"
  using reachable_server_inv [of "exec [Connect 1, Event 1 5 (JoinRoom ''r1'' ''alice'')] init_server"]
  by (blast intro: reachable_exec reachable.init)

section \<open>Sequences of joins\<close>

definition joins :: "room_id \<Rightarrow> (socket_id \<times> timestamp \<times> username) list \<Rightarrow> action list" where
  "joins rid js = map (\<lambda>(sid, now, u). Event sid now (JoinRoom rid u)) js"

lemma step_join_ok:
  assumes "faults (store s) = []" "rid \<noteq> []" "connected sid (sockets s)"
  shows "faults (store (snd (step (Event sid now (JoinRoom rid u)) s))) = [] \<and>
         (\<forall>x. connected x (sockets (snd (step (Event sid now (JoinRoom rid u)) s))) =
              connected x (sockets s)) \<and>
         (\<forall>x. participants_of x (store (snd (step (Event sid now (JoinRoom rid u)) s))) =
              (if x = rid then Some (add_participant u (participants_of rid (store s)))
               else participants_of x (store s)))"
  using join_room_ok [OF assms(1,2), where u = u and sid = sid and now = now] assms(3)
  by (auto simp: dispatch_def)

lemma exec_joins:
  assumes "faults (store s) = []" "rid \<noteq> []" "\<forall>j \<in> set js. connected (fst j) (sockets s)"
  shows "participants_of rid (store (exec (joins rid js) s)) =
           fold (\<lambda>j ps. Some (add_participant (snd (snd j)) ps)) js
             (participants_of rid (store s))"
  using assms
proof (induction js arbitrary: s)
  case Nil
  then show ?case by (simp add: joins_def)
next
  case (Cons j js)
  obtain sid now u where j: "j = (sid, now, u)" by (cases j)
  let ?s' = "snd (step (Event sid now (JoinRoom rid u)) s)"
  from Cons.prems j have c: "connected sid (sockets s)" by simp
  note S = step_join_ok [OF Cons.prems(1,2) c, of now u]
  with Cons.prems(3) have "\<forall>j \<in> set js. connected (fst j) (sockets ?s')" by simp
  with S Cons.prems(2) have "participants_of rid (store (exec (joins rid js) ?s')) =
      fold (\<lambda>j ps. Some (add_participant (snd (snd j)) ps)) js (participants_of rid (store ?s'))"
    by (intro Cons.IH) simp_all
  with S j show ?case by (simp add: joins_def)
qed

lemma fold_add_participant_fresh:
  "distinct (map (snd \<circ> snd) js) \<Longrightarrow> set (map (snd \<circ> snd) js) \<inter> set ps = {} \<Longrightarrow>
     fold (\<lambda>j ps. Some (add_participant (snd (snd j)) ps)) js (Some ps) =
       Some (ps @ map (snd \<circ> snd) js)"
  by (induction js arbitrary: ps) (auto simp: add_participant_def)

text \<open>
  Claim C3: on a store that does not fail, when connected sockets join a room that does
  not exist yet, one after the other under pairwise distinct names, the room's
  participant list afterwards is exactly those names, each once, in the order of the
  joins.
\<close>

theorem joins_in_first_join_order:
  assumes "faults (store s) = []" "rid \<noteq> []" "\<forall>j \<in> set js. connected (fst j) (sockets s)"
    and "participants_of rid (store s) = None" "distinct (map (snd \<circ> snd) js)" "js \<noteq> []"
  shows "participants_of rid (store (exec (joins rid js) s)) = Some (map (snd \<circ> snd) js)"
proof -
  from assms(6) obtain j js' where js: "js = j # js'" by (cases js) auto
  with assms(5) have "fold (\<lambda>j ps. Some (add_participant (snd (snd j)) ps)) js' (Some [snd (snd j)]) =
      Some ([snd (snd j)] @ map (snd \<circ> snd) js')"
    by (intro fold_add_participant_fresh) auto
  with exec_joins [OF assms(1-3)] assms(4) js show ?thesis
    by (simp add: add_participant_def)
qed

theorem joins_in_first_join_order_witness:
  "faults (store (exec [Connect 1, Connect 2, Connect 3] init_server)) = [] \<and> ''r1'' \<noteq> [] \<and>
   participants_of ''r1'' (store (exec [Connect 1, Connect 2, Connect 3] init_server)) = None \<and>
   distinct (map (snd \<circ> snd) [(2, 5, ''bob''), (1, 6, ''alice''), (3, 7, ''carol'')]) \<and>
   participants_of ''r1'' (store (exec
       (joins ''r1'' [(2, 5, ''bob''), (1, 6, ''alice''), (3, 7, ''carol'')])
       (exec [Connect 1, Connect 2, Connect 3] init_server))) =
     Some [''bob'', ''alice'', ''carol'']"
proof -
  let ?s = "exec [Connect 1, Connect 2, Connect 3] init_server"
  let ?js = "[(2, 5, ''bob''), (1, 6, ''alice''), (3, 7, ''carol'')] :: (socket_id \<times> timestamp \<times> username) list"
  have h: "faults (store ?s) = []" "''r1'' \<noteq> []" "\<forall>j \<in> set ?js. connected (fst j) (sockets ?s)"
    "participants_of ''r1'' (store ?s) = None" "distinct (map (snd \<circ> snd) ?js)" "?js \<noteq> []"
    by (simp_all add: eval_defs)
  from joins_in_first_join_order [OF h] h show ?thesis by simp
qed

section \<open>A socket that joins twice\<close>

lemma step_disconnect_ok:
  assumes "server_inv s" "faults (store s) = []" "map_of (sockets s) sid = Some k"
    and "sock_roomId k = Some rid" "sock_username k = Some u" "rid \<noteq> []" "u \<noteq> []"
  shows "\<not> connected sid (sockets (snd (step (Event sid now Disconnect) s))) \<and>
         (\<forall>x. participants_of x (store (snd (step (Event sid now Disconnect) s))) =
              (if x = rid then drop_participant u (participants_of rid (store s))
               else participants_of x (store s)))"
proof -
  from assms(3) have "connected sid (sockets s)" by (simp add: connected_map_of)
  with disconnect_ok [OF assms] show ?thesis
    by (auto simp: dispatch_def)
qed

lemma step_disconnect_state:
  assumes "server_inv s" "faults (store s) = []" "map_of (sockets s) sid = Some k"
    and "sock_roomId k = Some rid" "sock_username k = Some u" "rid \<noteq> []" "u \<noteq> []"
  shows "sockets (snd (step (Event sid now Disconnect) s)) = AList.delete sid (sockets s)"
    and "faults (store (snd (step (Event sid now Disconnect) s))) = []"
proof -
  from assms(3) have "connected sid (sockets s)" by (simp add: connected_map_of)
  with disconnect_ok [OF assms]
  show "sockets (snd (step (Event sid now Disconnect) s)) = AList.delete sid (sockets s)"
    and "faults (store (snd (step (Event sid now Disconnect) s))) = []"
    by (auto simp: dispatch_def)
qed


text \<open>
  Claim C30: no handler guards against a second join. On a store that does not fail, a
  connected socket that joins one room, then another, then disconnects, is removed from
  the second room only: the first room still lists the name it joined under, although
  the socket is gone.
\<close>

theorem second_join_orphans_first_room:
  assumes "server_inv s" "faults (store s) = []" "connected sid (sockets s)"
    and "rid1 \<noteq> []" "rid2 \<noteq> []" "rid1 \<noteq> rid2" "u2 \<noteq> []"
  shows "\<exists>ps. participants_of rid1 (store (exec
             [Event sid t1 (JoinRoom rid1 u1), Event sid t2 (JoinRoom rid2 u2),
              Event sid t3 Disconnect] s)) = Some ps \<and> u1 \<in> set ps \<and>
         \<not> connected sid (sockets (exec
             [Event sid t1 (JoinRoom rid1 u1), Event sid t2 (JoinRoom rid2 u2),
              Event sid t3 Disconnect] s))"
proof -
  let ?s1 = "snd (step (Event sid t1 (JoinRoom rid1 u1)) s)"
  let ?s2 = "snd (step (Event sid t2 (JoinRoom rid2 u2)) ?s1)"
  note S1 = step_join_ok [OF assms(2,4,3), of t1 u1]
  then have c1: "connected sid (sockets ?s1)" using assms(3) by simp
  note S2 = step_join_ok [OF conjunct1 [OF S1] assms(5) c1, of t2 u2]
  have inv: "server_inv ?s2" using assms(1) by (intro step_inv)
  from join_room_ok [OF conjunct1 [OF S1] assms(5), where u = u2 and sid = sid and now = t2] c1
  have "sockets ?s2 = bind_socket sid rid2 u2 (sockets ?s1)"
    by (auto simp: dispatch_def)
  moreover from c1 obtain k where "map_of (sockets ?s1) sid = Some k"
    by (auto simp: connected_map_of)
  ultimately obtain k' where k': "map_of (sockets ?s2) sid = Some k'"
    "sock_roomId k' = Some rid2" "sock_username k' = Some u2"
    by (simp add: map_of_bind_socket)
  note S3 = step_disconnect_ok [OF inv conjunct1 [OF S2] k' assms(5,7), of t3]
  from S1 S2 S3 assms(6) show ?thesis by simp
qed

theorem second_join_orphans_first_room_witness:
  "server_inv (connection 1 init_server) \<and> faults (store (connection 1 init_server)) = [] \<and>
   connected 1 (sockets (connection 1 init_server)) \<and>
   participants_of ''r1'' (store (exec
       [Event 1 5 (JoinRoom ''r1'' ''alice''), Event 1 6 (JoinRoom ''r2'' ''alice''),
        Event 1 7 Disconnect] (connection 1 init_server))) = Some [''alice''] \<and>
   sockets (exec
       [Event 1 5 (JoinRoom ''r1'' ''alice''), Event 1 6 (JoinRoom ''r2'' ''alice''),
        Event 1 7 Disconnect] (connection 1 init_server)) = []"
proof -
  let ?s = "connection 1 init_server"
  have h: "server_inv ?s" "faults (store ?s) = []" "connected 1 (sockets ?s)"
    by (simp_all add: connection_inv server_inv_init) (simp_all add: eval_defs)
  have e: "participants_of ''r1'' (store (exec
       [Event 1 5 (JoinRoom ''r1'' ''alice''), Event 1 6 (JoinRoom ''r2'' ''alice''),
        Event 1 7 Disconnect] ?s)) = Some [''alice'']"
    "sockets (exec
       [Event 1 5 (JoinRoom ''r1'' ''alice''), Event 1 6 (JoinRoom ''r2'' ''alice''),
        Event 1 7 Disconnect] ?s) = []"
    by (simp_all add: eval_defs)
  from second_join_orphans_first_room [OF h, of "''r1''" "''r2''" "''alice''" 5 "''alice''" 6 7] h e
  show ?thesis by simp
qed

end
