(* ===== verification/Refinement.thy ===== *)
theory Refinement
  imports Chat_Spec Chat_System
begin

text \<open>
  The handlers of \<^verbatim>\<open>src/server.js\<close> implement the specification of theory \<open>Chat_Spec\<close>.
  The abstraction \<open>abs_server\<close> reads a server state as a \<open>chat\<close>: the roster is the
  participant list found under each room id, the history is the messages of each room
  in stored order, and a session is the groups and the bound room and user of a socket.
  It forgets the order of the room records, their creation times, the id counter and
  the schedule of failures. Every handler, run on a well-formed state under any
  schedule of failures, performs a step of the specification, and every reachable
  server state is a reachable state of the specification.
\<close>

section \<open>Abstraction\<close>

definition abs_session :: "socket \<Rightarrow> session" where
  "abs_session k =
     \<lparr>groups = set (sock_rooms k),
      bound = (case (sock_roomId k, sock_username k) of
                 (Some rid, Some u) \<Rightarrow> Some (rid, u) | _ \<Rightarrow> None)\<rparr>"

definition abs_server :: "server \<Rightarrow> chat" where
  "abs_server s =
     \<lparr>roster = (\<lambda>rid. participants_of rid (store s)),
      history = (\<lambda>rid. room_messages rid (store s)),
      sessions = (\<lambda>sid. map_option abs_session (map_of (sockets s) sid))\<rparr>"

lemma groups_abs_session [simp]: "groups (abs_session k) = set (sock_rooms k)"
  by (simp add: abs_session_def)

lemma bound_abs_session [simp]:
  "bound (abs_session k) = Some (rid, u) \<longleftrightarrow> sock_roomId k = Some rid \<and> sock_username k = Some u"
  "bound (abs_session k) = None \<longleftrightarrow> sock_roomId k = None \<or> sock_username k = None"
  by (auto simp: abs_session_def split: option.splits)

lemma roster_abs [simp]: "roster (abs_server s) rid = participants_of rid (store s)"
  and history_abs [simp]: "history (abs_server s) rid = room_messages rid (store s)"
  and sessions_abs [simp]:
    "sessions (abs_server s) sid = map_option abs_session (map_of (sockets s) sid)"
  by (simp_all add: abs_server_def)

lemma abs_server_init: "abs_server init_server = init_chat"
  by (simp add: abs_server_def init_chat_def init_server_def empty_db_def participants_of_def
      find_room_def room_messages_def)

lemma abs_server_eqI:
  assumes "\<And>x. participants_of x (store s) = roster c x"
    and "\<And>x. room_messages x (store s) = history c x"
    and "\<And>x. map_option abs_session (map_of (sockets s) x) = sessions c x"
  shows "abs_server s = c"
  using assms by (cases c) (auto simp: abs_server_def)

lemma abs_server_frame:
  assumes "rooms (store s') = rooms (store s)" "messages (store s') = messages (store s)"
    and "sockets s' = sockets s"
  shows "abs_server s' = abs_server s"
  using assms by (simp add: abs_server_def participants_of_def find_room_def room_messages_def)

lemma abs_server_connection: "abs_server (connection sid s) = spec_connect sid (abs_server s)"
  by (rule abs_server_eqI)
     (auto simp: connection_def spec_connect_def connected_map_of abs_session_def new_socket_def
        map_add_def split: option.splits)

lemma subscribers_abs:
  assumes "transport_inv (sockets s)"
  shows "subscribers rid (abs_server s) = set (members rid (sockets s))"
proof -
  from assms have d: "distinct (map fst (sockets s))" by (simp add: transport_inv_def)
  show ?thesis by (auto simp: subscribers_def mem_members_iff [OF d])
qed

lemma set_io_to_emit: "set (io_to_emit rid ev t) = (\<lambda>r. (r, ev)) ` set (members rid t)"
  by (simp add: io_to_emit_def)

lemma set_socket_to_emit:
  "set (socket_to_emit sid rid ev t) = (\<lambda>r. (r, ev)) ` (set (members rid t) - {sid})"
  by (auto simp: socket_to_emit_def)

lemma to_room_abs:
  "transport_inv (sockets s) \<Longrightarrow>
     to_room rid ev (abs_server s) = set (io_to_emit rid ev (sockets s))"
  by (simp add: to_room_def subscribers_abs set_io_to_emit)

lemma to_others_abs:
  "transport_inv (sockets s) \<Longrightarrow>
     to_others sid rid ev (abs_server s) = set (socket_to_emit sid rid ev (sockets s))"
  by (simp add: to_others_def subscribers_abs set_socket_to_emit)

lemma chat_inv_abs:
  assumes "server_inv s"
  shows "chat_inv (abs_server s)"
proof -
  from assms have d: "db_inv (store s)" and t: "transport_inv (sockets s)"
    by (simp_all add: server_inv_def)
  have "roster_ok (abs_server s)"
    unfolding roster_ok_def
  proof (intro allI impI)
    fix rid ps assume "roster (abs_server s) rid = Some ps"
    then obtain r where "find_room rid (store s) = Some r" "ps = room_participants r"
      by (auto simp: participants_of_def)
    with d show "rid \<noteq> [] \<and> ps \<noteq> [] \<and> distinct ps"
      by (auto dest!: find_room_SomeD dest: db_inv_roomsD simp: room_ok_def validate_room_def)
  qed
  moreover from d have "history_ok (abs_server s)"
    by (auto simp: history_ok_def room_messages_def db_inv_def message_ok_def)
  moreover from t have "sessions_ok (abs_server s)"
    by (auto simp: sessions_ok_def transport_inv_def socket_ok_def dest!: map_of_SomeD)
  ultimately show ?thesis by (simp add: chat_inv_def)
qed

section \<open>join-room\<close>

lemma abs_session_bind:
  "abs_session (k\<lparr>sock_rooms := List.insert rid (sock_rooms k), sock_roomId := Some rid,
                  sock_username := Some u\<rparr>) =
     \<lparr>groups = insert rid (groups (abs_session k)), bound = Some (rid, u)\<rparr>"
  by (simp add: abs_session_def)

lemma abs_server_join:
  assumes "find_or_create_room rid u now (store s) = (Inr r, d1)"
    and "rooms d2 = rooms d1" "messages d2 = messages d1"
  shows "abs_server \<lparr>store = d2, sockets = bind_socket sid rid u (sockets s)\<rparr> =
           spec_join sid rid u (abs_server s)"
proof (rule abs_server_eqI)
  note F = find_or_create_room_Inr [OF assms(1)]
  fix x
  from assms(2) have "find_room x d2 = find_room x d1" by (intro find_room_cong)
  with F(1,2) F(4) [of x]
  show "participants_of x (store \<lparr>store = d2, sockets = bind_socket sid rid u (sockets s)\<rparr>) =
          roster (spec_join sid rid u (abs_server s)) x"
    by (cases "x = rid") (simp_all add: participants_of_def spec_join_def)
next
  note F = find_or_create_room_Inr [OF assms(1)]
  fix x
  from F(3) assms(3)
  show "room_messages x (store \<lparr>store = d2, sockets = bind_socket sid rid u (sockets s)\<rparr>) =
          history (spec_join sid rid u (abs_server s)) x"
    by (simp add: room_messages_def spec_join_def)
next
  fix x
  show "map_option abs_session
          (map_of (sockets \<lparr>store = d2, sockets = bind_socket sid rid u (sockets s)\<rparr>) x) =
        sessions (spec_join sid rid u (abs_server s)) x"
    by (simp add: map_of_bind_socket spec_join_def option.map_comp comp_def abs_session_bind)
qed

lemma join_room_refines:
  assumes "server_inv s" "connected sid (sockets s)"
  shows "spec_step (abs_server s) sid now (JoinRoom rid u)
           (set (fst (join_room sid rid u now s))) (abs_server (snd (join_room sid rid u now s)))"
proof -
  from assms(1) have d: "db_inv (store s)" and t: "transport_inv (sockets s)"
    by (simp_all add: server_inv_def)
  obtain res d1 where f: "find_or_create_room rid u now (store s) = (res, d1)" by force
  show ?thesis
  proof (cases res)
    case (Inl e)
    with f have "abs_server (s\<lparr>store := d1\<rparr>) = abs_server s"
      by (intro abs_server_frame) (auto dest: find_or_create_room_Inl)
    with f Inl show ?thesis
      by (simp add: join_room_def socket_emit_def spec_step.join_failed)
  next
    case (Inr r)
    let ?t1 = "bind_socket sid rid u (sockets s)"
    let ?ps = "add_participant u (participants_of rid (store s))"
    note F = find_or_create_room_Inr [OF f [unfolded Inr]]
    from find_or_create_room_inv [OF d f] F(1) have rid: "rid \<noteq> []"
      by (auto dest!: find_room_SomeD dest: db_inv_roomsD simp: room_ok_def validate_room_def)
    obtain res2 d2 where q: "Query_exec (recent_messages_query rid) d1 = (res2, d2)" by force
    note Q = Query_exec_result [OF q]
    let ?s' = "\<lparr>store = d2, sockets = ?t1\<rparr>"
    from Q have a: "abs_server ?s' = spec_join sid rid u (abs_server s)"
      by (intro abs_server_join [OF f [unfolded Inr]]) simp_all
    from t have t1: "transport_inv (sockets ?s')" by (simp add: transport_inv_bind_socket)
    show ?thesis
    proof (cases res2)
      case (Inl e)
      with f Inr q rid show ?thesis
        by (simp add: join_room_def socket_emit_def a spec_step.join_unanswered)
    next
      case (Inr msgs)
      with Q F(3) have "msgs = first_page (history (abs_server s) rid)"
        by (simp add: run_recent_messages_query first_page_def room_messages_def)
      moreover have "spec_step (abs_server s) sid now (JoinRoom rid u)
          (insert (sid, RoomJoined rid ?ps (first_page (history (abs_server s) rid)))
             (to_others sid rid (UserJoined u ?ps) (abs_server ?s'))) (abs_server ?s')"
        by (rule spec_step.join) (simp_all add: rid a)
      ultimately show ?thesis
        using f \<open>res = Inr r\<close> q Inr F(2) to_others_abs [OF t1]
        by (simp add: join_room_def socket_emit_def Let_def)
    qed
  qed
qed

section \<open>send-message and clear-room-chat\<close>

lemma send_message_refines:
  assumes "server_inv s"
  shows "spec_step (abs_server s) sid now (SendMessage rid sender txt)
           (set (fst (send_message sid rid sender txt now s)))
           (abs_server (snd (send_message sid rid sender txt now s)))"
proof -
  from assms have d: "db_inv (store s)" and t: "transport_inv (sockets s)"
    by (simp_all add: server_inv_def)
  let ?m = "\<lparr>msg_id = next_oid (store s), msg_roomId = rid, msg_sender = sender, msg_text = txt,
            msg_timestamp = now\<rparr>"
  let ?d0 = "(store s)\<lparr>next_oid := Suc (next_oid (store s))\<rparr>"
  obtain res d1 where m: "Message_save ?m ?d0 = (res, d1)" by force
  show ?thesis
  proof (cases res)
    case (Inl e)
    with m have "abs_server (s\<lparr>store := d1\<rparr>) = abs_server s"
      by (intro abs_server_frame) (auto dest: Message_save_Inl)
    with m Inl show ?thesis
      by (simp add: send_message_def new_Message_def socket_emit_def spec_step.send_failed)
  next
    case (Inr m')
    note M = Message_save_Inr [OF m [unfolded Inr]]
    from M have a: "abs_server (s\<lparr>store := d1\<rparr>) = spec_post ?m (abs_server s)"
      by (intro abs_server_eqI)
         (simp_all add: participants_of_def find_room_def room_messages_def spec_post_def)
    from d have fresh: "\<forall>x. next_oid (store s) \<notin> msg_id ` set (history (abs_server s) x)"
      by (auto simp: db_inv_def message_ok_def room_messages_def)
    from M have "rid \<noteq> []" "sender \<noteq> []" "txt \<noteq> []" by (simp_all add: validate_message_def)
    from spec_step.send [OF this fresh, of sid now] m Inr M a to_room_abs [OF t]
    show ?thesis by (simp add: send_message_def new_Message_def)
  qed
qed

lemma clear_room_chat_refines:
  assumes "server_inv s"
  shows "spec_step (abs_server s) sid now (ClearRoomChat rid)
           (set (fst (clear_room_chat sid rid s))) (abs_server (snd (clear_room_chat sid rid s)))"
proof -
  from assms have t: "transport_inv (sockets s)" by (simp add: server_inv_def)
  obtain res d1 where m: "Message_deleteMany rid (store s) = (res, d1)" by force
  from Message_deleteMany_result [OF m] show ?thesis
  proof (elim conjE disjE)
    assume "rooms d1 = rooms (store s)" "res = Inl StoreUnavailable" "messages d1 = messages (store s)"
    moreover from this have "abs_server (s\<lparr>store := d1\<rparr>) = abs_server s"
      by (intro abs_server_frame) auto
    ultimately show ?thesis using m
      by (simp add: clear_room_chat_def socket_emit_def spec_step.clear_failed)
  next
    assume "rooms d1 = rooms (store s)" "res = Inr (length (room_messages rid (store s)))"
      "messages d1 = filter (\<lambda>m. msg_roomId m \<noteq> rid) (messages (store s))"
    moreover from this have "abs_server (s\<lparr>store := d1\<rparr>) = spec_clear rid (abs_server s)"
      by (intro abs_server_eqI)
         (auto simp: participants_of_def find_room_def room_messages_def spec_clear_def
            intro: filter_cong)
    ultimately show ?thesis using m spec_step.clear [of "abs_server s" sid now rid] to_room_abs [OF t]
      by (simp add: clear_room_chat_def)
  qed
qed

lemma typing_refines:
  assumes "server_inv s"
  shows "spec_step (abs_server s) sid now (Typing rid u b)
           (set (fst (typing sid rid u b s))) (abs_server (snd (typing sid rid u b s)))"
  using assms spec_step.typing [of "abs_server s" sid now rid u b]
  by (simp add: typing_def to_others_abs server_inv_def)

section \<open>disconnect\<close>

text \<open>
  Under any schedule of failures the \<^verbatim>\<open>try\<close> block of the disconnect handler either
  leaves the rooms as they were and tells nobody, or removes the user from the room and
  tells the others what the room's list has become.
\<close>

lemma leave_delete_case:
  assumes "db_inv d" "rooms d1 = rooms d" "messages d1 = messages d"
    and "Room_deleteOne rid d1 = (res2, d2)"
  shows "messages d2 = messages d \<and>
         (rooms d2 = rooms d \<or> (\<forall>x. find_room x d2 = (if x = rid then None else find_room x d)))"
  using Room_deleteOne_result [OF assms(4)] assms(1-3)
  by (auto simp: find_room_delete [of d d2 rid] db_inv_roomsD)

lemma leave_save_case:
  assumes "db_inv d" "find_room rid d = Some r" "rooms d1 = rooms d" "messages d1 = messages d"
    and "Room_save (Assigned (room_participants r)) (r\<lparr>room_participants := ps\<rparr>) d1 = (res2, d2)"
  shows "messages d2 = messages d \<and>
         ((\<exists>e. res2 = Inl e) \<and> rooms d2 = rooms d \<or>
          (\<exists>r''. res2 = Inr r'') \<and>
          (\<forall>x. participants_of x d2 = (if x = rid then Some ps else participants_of x d)))"
proof (cases res2)
  case (Inl e)
  with Room_save_Inl [OF assms(5) [unfolded Inl]] assms(3,4) show ?thesis by simp
next
  case (Inr r'')
  note s = assms(5) [unfolded Inr]
  from assms(2,3) have "find_room rid d1 = Some r"
    by (simp add: find_room_cong [of d1 d])
  from Room_save_fresh [OF this _ s] Room_save_Inr [OF s] assms(3,4) Inr show ?thesis
    by (simp add: participants_of_def fresh_change_def find_room_cong [of d1 d])
qed

lemma leave_room_cases:
  assumes "db_inv d" "leave_room sid rid u t d = (es, d')"
  shows "messages d' = messages d \<and>
         (es = [] \<and> rooms d' = rooms d \<or>
          (\<forall>x. participants_of x d' =
                 (if x = rid then drop_participant u (participants_of rid d)
                  else participants_of x d)) \<and>
          es = (case drop_participant u (participants_of rid d) of
                  None \<Rightarrow> [] | Some ps \<Rightarrow> socket_to_emit sid rid (UserLeft u ps) t))"
proof -
  obtain res1 d1 where f: "Room_findOne rid d = (res1, d1)" by force
  note F = Room_findOne_result [OF f]
  show ?thesis
  proof (cases "res1 = Inr (find_room rid d) \<and> find_room rid d \<noteq> None")
    case False
    with assms(2) f F show ?thesis by (auto simp: leave_room_def)
  next
    case True
    then obtain r where r: "find_room rid d = Some r" and res1: "res1 = Inr (Some r)" by auto
    then have k: "room_roomId r = rid" by (auto dest!: find_room_SomeD)
    let ?ps = "filter (\<lambda>p. p \<noteq> u) (room_participants r)"
    obtain res2 d2 where x: "Room_deleteOne rid d1 = (res2, d2)" by force
    obtain res3 d3
      where y: "Room_save (Assigned (room_participants r)) (r\<lparr>room_participants := ?ps\<rparr>) d1 =
        (res3, d3)" by force
    from F have same: "rooms d1 = rooms d" "messages d1 = messages d" by simp_all
    note D = leave_delete_case [OF assms(1) same x]
    note S = leave_save_case [OF assms(1) r same y]
    from assms(2) f res1 x y r D S show ?thesis
      by (auto simp: leave_room_def remove_participant_def participants_of_def
          drop_participant_def Let_def split: if_splits)
  qed
qed

lemma abs_server_close:
  assumes "rooms (store s') = rooms (store s)" "messages (store s') = messages (store s)"
    and "sockets s' = AList.delete sid (sockets s)"
  shows "abs_server s' = spec_close sid (abs_server s)"
  using assms
  by (intro abs_server_eqI)
     (simp_all add: participants_of_def find_room_def room_messages_def spec_close_def
        map_of_delete_same map_of_delete_other)

lemma abs_server_leave:
  assumes "\<And>x. participants_of x (store s') =
             (if x = rid then drop_participant u (participants_of rid (store s))
              else participants_of x (store s))"
    and "messages (store s') = messages (store s)" "sockets s' = AList.delete sid (sockets s)"
  shows "abs_server s' = spec_close sid (spec_leave rid u (abs_server s))"
  using assms
  by (intro abs_server_eqI)
     (simp_all add: room_messages_def spec_close_def spec_leave_def
        map_of_delete_same map_of_delete_other)

lemma disconnect_refines:
  assumes "server_inv s" "connected sid (sockets s)"
  shows "spec_step (abs_server s) sid now Disconnect
           (set (fst (disconnect sid s))) (abs_server (snd (disconnect sid s)))"
proof -
  from assms(1) have d: "db_inv (store s)" and t: "transport_inv (sockets s)"
    by (simp_all add: server_inv_def)
  from assms(2) obtain k where k: "map_of (sockets s) sid = Some k"
    by (auto simp: connected_map_of)
  let ?t = "AList.delete sid (sockets s)"
  show ?thesis
  proof (cases "js_truthy (sock_roomId k) \<and> js_truthy (sock_username k)")
    case False
    have "abs_server (s\<lparr>sockets := ?t\<rparr>) = spec_close sid (abs_server s)"
      by (rule abs_server_close) simp_all
    with disconnect_unbound [OF k False] show ?thesis by (simp add: spec_step.close)
  next
    case True
    then obtain rid u where b: "sock_roomId k = Some rid" "sock_username k = Some u"
      "rid \<noteq> []" "u \<noteq> []"
      by (cases "sock_roomId k"; cases "sock_username k") auto
    obtain es d' where l: "leave_room sid rid u ?t (store s) = (es, d')" by force
    let ?s' = "\<lparr>store = d', sockets = ?t\<rparr>"
    from disconnect_bound [OF k b] l have e: "disconnect sid s = (es, ?s')" by simp
    from leave_room_cases [OF d l] show ?thesis
    proof (elim conjE disjE)
      assume "messages d' = messages (store s)" "rooms d' = rooms (store s)" "es = []"
      moreover from this have "abs_server ?s' = spec_close sid (abs_server s)"
        by (intro abs_server_close) simp_all
      ultimately show ?thesis using e by (simp add: spec_step.close)
    next
      let ?left = "drop_participant u (participants_of rid (store s))"
      assume p: "\<forall>x. participants_of x d' =
                  (if x = rid then ?left else participants_of x (store s))"
        and m: "messages d' = messages (store s)"
        and es: "es = (case ?left of None \<Rightarrow> []
                       | Some ps \<Rightarrow> socket_to_emit sid rid (UserLeft u ps) ?t)"
      from p m have a: "abs_server ?s' = spec_close sid (spec_leave rid u (abs_server s))"
        by (intro abs_server_leave) simp_all
      from t have "transport_inv (sockets ?s')" by (simp add: transport_inv_delete)
      note O = to_others_abs [OF this]
      from p es O have "set es = (case roster (abs_server ?s') rid of None \<Rightarrow> {}
                        | Some ps \<Rightarrow> to_others sid rid (UserLeft u ps) (abs_server ?s'))"
        by (simp split: option.splits)
      with spec_step.leave [of "abs_server s" sid "abs_session k" rid u "abs_server ?s'" "set es" now]
        k b a e
      show ?thesis by simp
    qed
  qed
qed

section \<open>The simulation\<close>

lemma handle_refines:
  assumes "server_inv s" "connected sid (sockets s)"
  shows "spec_step (abs_server s) sid now ev
           (set (fst (handle sid now ev s))) (abs_server (snd (handle sid now ev s)))"
proof (cases ev)
  case (Typing rid u b)
  from typing_refines [OF assms(1), of sid now rid u b] Typing show ?thesis by simp
qed (use assms in \<open>simp_all add: join_room_refines send_message_refines
      clear_room_chat_refines disconnect_refines\<close>)

lemma step_refines:
  assumes "server_inv s" "spec_reachable (abs_server s)"
  shows "spec_reachable (abs_server (snd (step a s)))"
proof (cases a)
  case (Connect sid)
  with assms(2) show ?thesis by (simp add: abs_server_connection spec_reachable.connect)
next
  case (Event sid now ev)
  show ?thesis
  proof (cases "connected sid (sockets s)")
    case True
    then have "sessions (abs_server s) sid \<noteq> None" by (simp add: connected_map_of)
    from spec_reachable.event [OF assms(2) this handle_refines [OF assms(1) True, of now ev]]
      Event True
    show ?thesis by (simp add: dispatch_def case_prod_unfold)
  next
    case False
    with Event assms(2) show ?thesis by (simp add: dispatch_def)
  qed
next
  case (GetRoom rid)
  obtain r d where g: "get_room rid (store s) = (r, d)" by force
  from get_room_frame [OF g] have "abs_server (s\<lparr>store := d\<rparr>) = abs_server s"
    by (intro abs_server_frame) simp_all
  with GetRoom g assms(2) show ?thesis by simp
next
  case (GetRoomMessages rid)
  obtain r d where g: "get_room_messages rid (store s) = (r, d)" by force
  from get_room_messages_frame [OF g] have "abs_server (s\<lparr>store := d\<rparr>) = abs_server s"
    by (intro abs_server_frame) simp_all
  with GetRoomMessages g assms(2) show ?thesis by simp
next
  case (Faults bs)
  have "abs_server (s\<lparr>store := (store s)\<lparr>faults := bs\<rparr>\<rparr>) = abs_server s"
    by (intro abs_server_frame) simp_all
  with Faults assms(2) show ?thesis by simp
qed

lemma reachable_refines: "reachable s \<Longrightarrow> spec_reachable (abs_server s)"
  by (induction rule: reachable.induct)
     (auto simp: abs_server_init intro: spec_reachable.init step_refines reachable_inv)

section \<open>What the refinement gives\<close>

lemma dispatch_refines:
  assumes "server_inv s" "connected sid (sockets s)"
  shows "spec_step (abs_server s) sid now ev
           (set (fst (dispatch sid now ev s))) (abs_server (snd (dispatch sid now ev s)))"
  using handle_refines [OF assms] assms(2) by (simp add: dispatch_def)

lemma witness_state:
  "server_inv (connection 1 init_server)" "connected 1 (sockets (connection 1 init_server))"
  "map_of (sockets (connection 1 init_server)) 1 = Some new_socket"
  by (simp_all add: connection_inv server_inv_init) (simp_all add: eval_defs)

text \<open>
  Claim C8: every handler implements the specification. On a well-formed server, under
  any schedule of store failures, the event of a connected socket takes the abstract
  state to the abstract state of the server the handler leaves, by a step of the
  specification for that event, and the deliveries of the handler are the deliveries of
  that step.
\<close>

theorem dispatch_refines_spec:
  assumes "server_inv s" "connected sid (sockets s)"
  shows "spec_step (abs_server s) sid now ev
           (set (fst (dispatch sid now ev s))) (abs_server (snd (dispatch sid now ev s)))"
  using assms by (rule dispatch_refines)

theorem dispatch_refines_spec_witness:
  "server_inv (connection 1 init_server) \<and> connected 1 (sockets (connection 1 init_server)) \<and>
   spec_step (abs_server (connection 1 init_server)) 1 5 (JoinRoom ''r1'' ''alice'')
     (set (fst (dispatch 1 5 (JoinRoom ''r1'' ''alice'') (connection 1 init_server))))
     (abs_server (snd (dispatch 1 5 (JoinRoom ''r1'' ''alice'') (connection 1 init_server))))"
  using dispatch_refines_spec [OF witness_state(1,2), of 5 "JoinRoom ''r1'' ''alice''"]
    witness_state(1,2)
  by blast

text \<open>
  Claim C9: every state the server reaches, through connections, socket events, route
  requests and store failures, is read by the abstraction as a state the specification
  reaches.
\<close>

theorem reachable_refines_spec: "reachable s \<Longrightarrow> spec_reachable (abs_server s)"
  by (rule reachable_refines)

theorem reachable_refines_spec_witness:
  "reachable (exec [Connect 1, Event 1 5 (JoinRoom ''r1'' ''alice'')] init_server) \<and>
   spec_reachable
     (abs_server (exec [Connect 1, Event 1 5 (JoinRoom ''r1'' ''alice'')] init_server))"
  using reachable_refines_spec
    [of "exec [Connect 1, Event 1 5 (JoinRoom ''r1'' ''alice'')] init_server"]
  by (blast intro: reachable_exec reachable.init)

text \<open>
  Claim C10: the life of a message. Whatever the event of a connected socket and
  whichever store calls fail, the messages of a room after the handler are the messages
  before it, or none and the event was clear-room-chat for that room, or the messages
  before it followed by one new message and the event was send-message for that room.
  No handler changes or removes a single stored message.
\<close>

theorem message_lifecycle:
  assumes "server_inv s" "connected sid (sockets s)"
  shows "room_messages x (store (snd (dispatch sid now ev s))) = room_messages x (store s) \<or>
         (ev = ClearRoomChat x \<and> room_messages x (store (snd (dispatch sid now ev s))) = []) \<or>
         (\<exists>m sender txt. ev = SendMessage x sender txt \<and>
            room_messages x (store (snd (dispatch sid now ev s))) =
              room_messages x (store s) @ [m])"
  using spec_step_history [OF dispatch_refines [OF assms], where x = x] by auto

theorem message_lifecycle_witness:
  "server_inv (connection 1 init_server) \<and> connected 1 (sockets (connection 1 init_server)) \<and>
   room_messages ''r1''
     (store (snd (dispatch 1 5 (SendMessage ''r1'' ''alice'' ''hi'') (connection 1 init_server)))) =
   room_messages ''r1'' (store (connection 1 init_server)) @
     [\<lparr>msg_id = 0, msg_roomId = ''r1'', msg_sender = ''alice'', msg_text = ''hi'',
       msg_timestamp = 5\<rparr>]"
  using message_lifecycle [OF witness_state(1,2), where x = "''r1''" and now = 5
      and ev = "SendMessage ''r1'' ''alice'' ''hi''"]
    witness_state(1,2)
  by (simp add: eval_defs)

text \<open>
  Claim C11: the life of a room. Whatever the event of a connected socket and whichever
  store calls fail, the participant list of a room, and whether the room exists, is
  changed only by a join-room for that room or by the disconnect of a socket bound to
  that room.
\<close>

theorem room_lifecycle:
  assumes "server_inv s" "map_of (sockets s) sid = Some k"
    and "ev \<noteq> Disconnect \<or> sock_roomId k \<noteq> Some x" "\<forall>u. ev \<noteq> JoinRoom x u"
  shows "participants_of x (store (snd (dispatch sid now ev s))) = participants_of x (store s)"
proof -
  from assms(2) have c: "connected sid (sockets s)" by (simp add: connected_map_of)
  from assms(2) have "sessions (abs_server s) sid = Some (abs_session k)" by simp
  from spec_step_other_rooms
    [OF dispatch_refines [OF assms(1) c, where ev = ev and now = now] this, where x = x] assms(3,4)
  show ?thesis by auto
qed

theorem room_lifecycle_witness:
  "server_inv (connection 1 init_server) \<and>
   map_of (sockets (connection 1 init_server)) 1 = Some new_socket \<and>
   participants_of ''r2''
     (store (snd (dispatch 1 5 (JoinRoom ''r1'' ''alice'') (connection 1 init_server)))) =
   participants_of ''r2'' (store (connection 1 init_server))"
  using room_lifecycle [OF witness_state(1,3), where ev = "JoinRoom ''r1'' ''alice''"
      and x = "''r2''" and now = 5]
    witness_state(1,3)
  by simp

end
