(* ===== verification/Failures.thy ===== *)
theory Failures
  imports Dispatcher
begin

text \<open>
  How the handlers of \<^verbatim>\<open>src/server.js\<close> use the store and where their error events come
  from. Every store call consumes one flag of the failure schedule, so the schedule a
  handler leaves tells how many calls it made; and an error event is emitted only when
  one of those calls threw or when a required field of the document to save was empty.
\<close>

section \<open>The schedule after a call\<close>

text \<open>
  \<open>calls_fail n d\<close>: one of the next \<open>n\<close> store calls on \<open>d\<close> throws.
  \<open>at_most_calls n d d'\<close>: from \<open>d\<close> to \<open>d'\<close> at most \<open>n\<close> store calls were made.
\<close>

definition calls_fail :: "nat \<Rightarrow> db \<Rightarrow> bool" where
  "calls_fail n d \<longleftrightarrow> True \<in> set (take n (faults d))"

definition at_most_calls :: "nat \<Rightarrow> db \<Rightarrow> db \<Rightarrow> bool" where
  "at_most_calls n d d' \<longleftrightarrow> (\<exists>k \<le> n. faults d' = drop k (faults d))"

lemma at_most_calls_refl [simp]: "at_most_calls n d d"
  unfolding at_most_calls_def by (rule exI [of _ 0]) simp

lemma at_most_calls_frame [simp]: "at_most_calls n d (d\<lparr>next_oid := k\<rparr>)"
  unfolding at_most_calls_def by (rule exI [of _ 0]) simp

lemma at_most_calls_trans:
  assumes "at_most_calls m d d1" "at_most_calls n d1 d2" "m + n \<le> k"
  shows "at_most_calls k d d2"
proof -
  from assms(1,2) obtain i j where "i \<le> m" "faults d1 = drop i (faults d)"
    "j \<le> n" "faults d2 = drop j (faults d1)"
    by (auto simp: at_most_calls_def)
  with assms(3) have "i + j \<le> k" "faults d2 = drop (i + j) (faults d)"
    by (simp_all add: add.commute)
  then show ?thesis by (auto simp: at_most_calls_def)
qed

lemma calls_fail_0 [simp]: "\<not> calls_fail 0 d"
  by (simp add: calls_fail_def)

lemma calls_fail_empty [simp]: "faults d = [] \<Longrightarrow> \<not> calls_fail n d"
  by (simp add: calls_fail_def)

lemma calls_fail_first: "faults d = True # bs \<Longrightarrow> 0 < n \<Longrightarrow> calls_fail n d"
  by (cases n) (simp_all add: calls_fail_def)

lemma calls_fail_mono: "calls_fail m d \<Longrightarrow> m \<le> n \<Longrightarrow> calls_fail n d"
  unfolding calls_fail_def by (meson set_take_subset_set_take subsetD)

lemma calls_fail_after:
  assumes "at_most_calls m d d1" "calls_fail n d1" "m + n \<le> k"
  shows "calls_fail k d"
proof -
  from assms(1) obtain i where i: "i \<le> m" "faults d1 = drop i (faults d)"
    by (auto simp: at_most_calls_def)
  with assms(2) have "True \<in> set (take n (drop i (faults d)))" by (simp add: calls_fail_def)
  then have "True \<in> set (take (i + n) (faults d))" by (auto simp: take_add)
  then have "calls_fail (i + n) d" by (simp add: calls_fail_def)
  with i(1) assms(3) show ?thesis by (auto intro: calls_fail_mono)
qed

text \<open>One store call: one flag consumed; an error it did not make itself is a failure.\<close>

lemma store_call_sched:
  assumes "store_call f d = (res, d')" "\<And>d0 r d1. f d0 = (r, d1) \<Longrightarrow> faults d1 = faults d0"
    and "0 < n"
  shows "at_most_calls n d d'"
proof -
  from assms(1) have "faults d' = drop 1 (faults d)"
  proof (cases rule: store_call_cases)
    case (Fault bs)
    then show ?thesis by simp
  next
    case (Pass d0)
    with assms(2) [of d0 res d'] show ?thesis by (simp add: drop_Suc)
  qed
  with assms(3) show ?thesis unfolding at_most_calls_def by (intro exI [of _ 1]) simp
qed

lemma store_call_Inl:
  assumes "store_call f d = (Inl e, d')" "\<And>d0 d1. f d0 \<noteq> (Inl e, d1)" "0 < n"
  shows "calls_fail n d"
  using assms(1)
proof (cases rule: store_call_cases)
  case (Fault bs)
  with assms(3) show ?thesis by (simp add: calls_fail_first)
next
  case (Pass d0)
  with assms(2) show ?thesis by simp
qed

lemma Room_findOne_sched: "Room_findOne rid d = (res, d') \<Longrightarrow> 0 < n \<Longrightarrow> at_most_calls n d d'"
  unfolding Room_findOne_def by (erule store_call_sched) auto

lemma Room_deleteOne_sched: "Room_deleteOne rid d = (res, d') \<Longrightarrow> 0 < n \<Longrightarrow> at_most_calls n d d'"
  unfolding Room_deleteOne_def by (erule store_call_sched) auto

lemma Message_deleteMany_sched:
  "Message_deleteMany rid d = (res, d') \<Longrightarrow> 0 < n \<Longrightarrow> at_most_calls n d d'"
  unfolding Message_deleteMany_def by (erule store_call_sched) auto

lemma Query_exec_sched: "Query_exec q d = (res, d') \<Longrightarrow> 0 < n \<Longrightarrow> at_most_calls n d d'"
  unfolding Query_exec_def by (erule store_call_sched) auto

lemma Room_save_sched:
  assumes "Room_save c r d = (res, d')" "0 < n"
  shows "at_most_calls n d d'"
proof (cases "validate_room r")
  case True
  with assms(1) have "store_call (send_change c r) d = (res, d')"
    by (simp add: Room_save_def)
  then show ?thesis
    by (rule store_call_sched) (auto simp: assms(2) dest: send_change_frame)
next
  case False
  with assms(1) show ?thesis by (simp add: Room_save_def)
qed

lemma Message_save_sched:
  assumes "Message_save m d = (res, d')" "0 < n"
  shows "at_most_calls n d d'"
proof (cases "validate_message m")
  case True
  with assms(1) have "store_call (\<lambda>d. (Inr m, d\<lparr>messages := messages d @ [m]\<rparr>)) d = (res, d')"
    by (simp add: Message_save_def)
  then show ?thesis by (rule store_call_sched) (auto simp: assms(2))
next
  case False
  with assms(1) show ?thesis by (simp add: Message_save_def)
qed

lemmas store_sched =
  Room_findOne_sched Room_deleteOne_sched Message_deleteMany_sched Query_exec_sched
  Room_save_sched Message_save_sched

lemma Room_findOne_Inl: "Room_findOne rid d = (Inl e, d') \<Longrightarrow> 0 < n \<Longrightarrow> calls_fail n d"
  unfolding Room_findOne_def by (erule store_call_Inl) simp_all

lemma Query_exec_Inl: "Query_exec q d = (Inl e, d') \<Longrightarrow> 0 < n \<Longrightarrow> calls_fail n d"
  unfolding Query_exec_def by (erule store_call_Inl) simp_all

lemma Message_deleteMany_Inl:
  "Message_deleteMany rid d = (Inl e, d') \<Longrightarrow> 0 < n \<Longrightarrow> calls_fail n d"
  unfolding Message_deleteMany_def by (erule store_call_Inl) simp_all

lemma Message_save_Inl_cause:
  assumes "Message_save m d = (Inl e, d')" "0 < n"
  shows "\<not> validate_message m \<or> calls_fail n d"
proof (cases "validate_message m")
  case True
  with assms(1) have "store_call (\<lambda>d. (Inr m, d\<lparr>messages := messages d @ [m]\<rparr>)) d = (Inl e, d')"
    by (simp add: Message_save_def)
  then have "calls_fail n d" by (rule store_call_Inl) (simp_all add: assms(2))
  then show ?thesis ..
qed simp

text \<open>
  Saving a room fails for a third reason besides validation and a failing call: the
  store rejects the change. The unique index rejects a second room with the same id,
  and an update is rejected when no stored document has the copy's object id, or, for
  an assigned array, its version.
\<close>

fun rejects :: "room_change \<Rightarrow> room \<Rightarrow> db \<Rightarrow> bool" where
  "rejects Created r d \<longleftrightarrow> room_roomId r \<in> room_roomId ` set (rooms d)"
| "rejects (Pushed u) r d \<longleftrightarrow> \<not> list_ex (same_doc r) (rooms d)"
| "rejects (Assigned prior) r d \<longleftrightarrow>
     \<not> list_ex (if room_participants r = prior then same_doc r else same_version r) (rooms d)"

lemma send_change_Inl_rejects: "send_change c r d = (Inl e, d') \<Longrightarrow> rejects c r d"
  by (cases c)
     (auto simp: insert_room_def push_room_def assign_room_def check_room_def split: if_splits)

lemma rejects_fresh: "r0 \<in> set (rooms d) \<Longrightarrow> fresh_change c r0 ps \<Longrightarrow>
    \<not> rejects c (r0\<lparr>room_participants := ps\<rparr>) d"
  by (cases c) (auto simp: fresh_change_def list_ex_iff same_doc_def same_version_def)

lemma Room_save_Inl_cause:
  assumes "Room_save c r d = (Inl e, d')" "0 < n"
  shows "\<not> validate_room r \<or> calls_fail n d \<or> rejects c r d"
proof (cases "validate_room r")
  case True
  with assms have c: "store_call (send_change c r) d = (Inl e, d')"
    by (simp add: Room_save_def)
  then show ?thesis
  proof (cases rule: store_call_cases)
    case (Fault bs)
    with assms(2) show ?thesis by (simp add: calls_fail_first)
  next
    case (Pass d0)
    from send_change_Inl_rejects [OF Pass(5)] Pass(1) show ?thesis
      by (cases c) simp_all
  qed
qed simp

section \<open>The handlers\<close>

lemma find_or_create_room_sched:
  assumes "find_or_create_room rid u now d = (res, d')"
  shows "at_most_calls 2 d d'"
  using assms
proof (cases rule: find_or_create_room_cases)
  case (Failed e)
  then show ?thesis by (intro Room_findOne_sched) simp_all
next
  case (Listed r0)
  then show ?thesis by (intro Room_findOne_sched) simp_all
next
  case (Created d1 r1 d2)
  from Created(2) have "at_most_calls 1 d1 d2" by (auto simp: new_Room_def)
  with Room_findOne_sched [OF Created(1), of 1] have "at_most_calls 1 d d2"
    by (auto simp: at_most_calls_def new_Room_frame [OF Created(2)])
  moreover have "at_most_calls 1 d2 d'" by (rule Room_save_sched [OF Created(3)]) simp
  ultimately show ?thesis by (rule at_most_calls_trans) simp
next
  case (Pushed d1 r0)
  have "at_most_calls 1 d d1" by (rule Room_findOne_sched [OF Pushed(1)]) simp
  moreover have "at_most_calls 1 d1 d'" by (rule Room_save_sched [OF Pushed(3)]) simp
  ultimately show ?thesis by (rule at_most_calls_trans) simp
qed

lemma find_or_create_room_Inl_cause:
  assumes "db_inv d" "find_or_create_room rid u now d = (Inl e, d')"
  shows "rid = [] \<or> calls_fail 2 d"
  using assms(2)
proof (cases rule: find_or_create_room_cases)
  case (Failed e')
  then have "calls_fail 2 d" by (intro Room_findOne_Inl) simp_all
  then show ?thesis ..
next
  case (Created d1 r1 d2)
  note F = Room_findOne_None [OF Created(1)] and N = new_Room_frame [OF Created(2)]
  have one: "at_most_calls 1 d d2"
    using Room_findOne_sched [OF Created(1), of 1] by (simp add: at_most_calls_def N)
  from F N have "\<not> rejects Created r1 d2" by simp
  with Room_save_Inl_cause [OF Created(3), of 1] N have "rid = [] \<or> calls_fail 1 d2"
    by (auto simp: validate_room_def)
  with calls_fail_after [OF one, of 1 2] show ?thesis by auto
next
  case (Pushed d1 r0)
  note F = Room_findOne_Some [OF Pushed(1)]
  have one: "at_most_calls 1 d d1" by (rule Room_findOne_sched [OF Pushed(1)]) simp
  note r0 = F(3,4)
  with assms(1) F have "validate_room (r0\<lparr>room_participants := room_participants r0 @ [u]\<rparr>)"
    by (auto dest: db_inv_roomsD simp: room_ok_def validate_room_def)
  moreover have "\<not> rejects (Pushed u) (r0\<lparr>room_participants := room_participants r0 @ [u]\<rparr>) d1"
    using r0(1) by (rule rejects_fresh) (simp add: fresh_change_def)
  ultimately have "calls_fail 1 d1" using Room_save_Inl_cause [OF Pushed(3), of 1] by simp
  with calls_fail_after [OF one, of 1 2] show ?thesis by auto
qed simp

lemma join_room_sched:
  assumes "join_room sid rid u now s = (es, s')"
  shows "at_most_calls 3 (store s) (store s')"
proof -
  obtain res d1 where f: "find_or_create_room rid u now (store s) = (res, d1)" by force
  note two = find_or_create_room_sched [OF f]
  have "at_most_calls 1 d1 (store s')"
    using assms f
    by (auto simp: join_room_def Let_def split: sum.splits prod.splits intro: Query_exec_sched)
  with two show ?thesis by (rule at_most_calls_trans) simp
qed

lemma join_room_error_cause:
  assumes "db_inv (store s)" "(r, ErrorEvent m) \<in> set (fst (join_room sid rid u now s))"
  shows "rid = [] \<or> calls_fail 3 (store s)"
proof -
  obtain res d1 where f: "find_or_create_room rid u now (store s) = (res, d1)" by force
  show ?thesis
  proof (cases res)
    case (Inl e)
    with find_or_create_room_Inl_cause [OF assms(1), of rid u now e d1] f show ?thesis
      by (auto intro: calls_fail_mono)
  next
    case (Inr room)
    note two = find_or_create_room_sched [OF f]
    from assms(2) f Inr have "\<exists>e d2. Query_exec (recent_messages_query rid) d1 = (Inl e, d2)"
      by (auto simp: join_room_def Let_def socket_emit_def socket_to_emit_def
          split: sum.splits prod.splits)
    then have "calls_fail 1 d1" by (auto intro: Query_exec_Inl)
    then have "calls_fail 3 (store s)" by (rule calls_fail_after [OF two]) simp
    then show ?thesis ..
  qed
qed

lemma send_message_sched:
  assumes "send_message sid rid sender txt now s = (es, s')"
  shows "at_most_calls 1 (store s) (store s')"
proof -
  let ?d0 = "(store s)\<lparr>next_oid := Suc (next_oid (store s))\<rparr>"
  have "at_most_calls 1 ?d0 (store s')"
    using assms
    by (auto simp: send_message_def new_Message_def split: sum.splits prod.splits
        intro: Message_save_sched)
  with at_most_calls_frame [of 0 "store s"] show ?thesis by (rule at_most_calls_trans) simp
qed

lemma send_message_error_cause:
  assumes "(r, ErrorEvent m) \<in> set (fst (send_message sid rid sender txt now s))"
  shows "rid = [] \<or> sender = [] \<or> txt = [] \<or> calls_fail 1 (store s)"
proof -
  let ?d0 = "(store s)\<lparr>next_oid := Suc (next_oid (store s))\<rparr>"
  let ?m = "\<lparr>msg_id = next_oid (store s), msg_roomId = rid, msg_sender = sender, msg_text = txt,
            msg_timestamp = now\<rparr>"
  from assms have "\<exists>e d1. Message_save ?m ?d0 = (Inl e, d1)"
    by (auto simp: send_message_def new_Message_def io_to_emit_def split: sum.splits prod.splits)
  then have "\<not> validate_message ?m \<or> calls_fail 1 ?d0"
    using Message_save_Inl_cause [of ?m ?d0 _ _ 1] by auto
  then show ?thesis by (auto simp: validate_message_def calls_fail_def)
qed

lemma clear_room_chat_sched:
  assumes "clear_room_chat sid rid s = (es, s')"
  shows "at_most_calls 1 (store s) (store s')"
  using assms
  by (auto simp: clear_room_chat_def split: sum.splits prod.splits
      intro: Message_deleteMany_sched)

lemma clear_room_chat_error_cause:
  assumes "(r, ErrorEvent m) \<in> set (fst (clear_room_chat sid rid s))"
  shows "calls_fail 1 (store s)"
  using assms
  by (auto simp: clear_room_chat_def io_to_emit_def split: sum.splits prod.splits
      intro: Message_deleteMany_Inl)

lemma leave_room_sched:
  assumes "leave_room sid rid u t d = (es, d')"
  shows "at_most_calls 2 d d'"
proof -
  obtain res1 d1 where f: "Room_findOne rid d = (res1, d1)" by force
  have one: "at_most_calls 1 d d1" by (rule Room_findOne_sched [OF f]) simp
  have "at_most_calls 1 d1 d'"
    using assms f
    by (auto simp: leave_room_def Let_def
        split: sum.splits option.splits if_splits prod.splits
        intro: Room_save_sched Room_deleteOne_sched)
  with one show ?thesis by (rule at_most_calls_trans) simp
qed

lemma disconnect_sched:
  assumes "disconnect sid s = (es, s')"
  shows "at_most_calls 2 (store s) (store s')"
  using assms
  by (auto simp: disconnect_def Let_def split: option.splits if_splits prod.splits
      intro: leave_room_sched)

lemma disconnect_no_error: "(r, ErrorEvent m) \<notin> set (fst (disconnect sid s))"
  using disconnect_emits [of "(r, ErrorEvent m)" sid s] by auto

lemma typing_no_error: "(r, ErrorEvent m) \<notin> set (fst (typing sid rid u b s))"
  by (auto simp: typing_def socket_to_emit_def)

section \<open>Every event\<close>

text \<open>The store calls an event can make, and the payloads the schemas reject.\<close>

fun store_calls :: "in_event \<Rightarrow> nat" where
  "store_calls (ClearRoomChat rid) = 1"
| "store_calls (JoinRoom rid u) = 3"
| "store_calls (SendMessage rid sender txt) = 1"
| "store_calls (Typing rid u b) = 0"
| "store_calls Disconnect = 2"

fun missing_field :: "in_event \<Rightarrow> bool" where
  "missing_field (JoinRoom rid u) \<longleftrightarrow> rid = []"
| "missing_field (SendMessage rid sender txt) \<longleftrightarrow> rid = [] \<or> sender = [] \<or> txt = []"
| "missing_field ev \<longleftrightarrow> False"

lemma handle_sched:
  "at_most_calls (store_calls ev) (store s) (store (snd (handle sid now ev s)))"
proof (cases ev)
  case (JoinRoom rid u)
  then show ?thesis using join_room_sched [OF prod.collapse [symmetric]] by simp
next
  case (SendMessage rid sender content)
  then show ?thesis using send_message_sched [OF prod.collapse [symmetric]] by simp
next
  case (ClearRoomChat rid)
  then show ?thesis using clear_room_chat_sched [OF prod.collapse [symmetric]] by simp
next
  case Disconnect
  then show ?thesis using disconnect_sched [OF prod.collapse [symmetric]] by simp
qed simp

lemma handle_error_cause:
  assumes "db_inv (store s)" "(r, ErrorEvent m) \<in> set (fst (handle sid now ev s))"
  shows "missing_field ev \<or> calls_fail (store_calls ev) (store s)"
proof (cases ev)
  case (JoinRoom rid u)
  with assms join_room_error_cause [of s r m sid rid u now] show ?thesis by simp
next
  case (SendMessage rid sender content)
  with assms send_message_error_cause [of r m sid rid sender content now s] show ?thesis by simp
next
  case (ClearRoomChat rid)
  with assms clear_room_chat_error_cause [of r m sid rid s] show ?thesis by simp
next
  case (Typing rid u b)
  with assms typing_no_error show ?thesis by simp
next
  case Disconnect
  with assms disconnect_no_error show ?thesis by simp
qed

text \<open>
  Claim C22: the store calls of a handler are bounded. Whatever the state and the
  schedule of failures, join-room makes at most three store calls, disconnect at most
  two, send-message and clear-room-chat at most one and typing none: the schedule the
  handler leaves is the one it found without at most that many leading flags.
\<close>

theorem handler_store_calls_bounded:
  "\<exists>k \<le> store_calls ev.
     faults (store (snd (dispatch sid now ev s))) = drop k (faults (store s))"
  using handle_sched [of ev s sid now]
  by (auto simp: dispatch_def at_most_calls_def)

text \<open>
  Claim C20: an error event has a cause. On a well-formed store, a handler emits an
  error event only when one of the store calls it may make throws, or when the payload
  lacks a field the schema requires (the room id of a join; the room id, the sender or
  the text of a message). Typing makes no store call and has no required field, so it
  never emits one; disconnect never emits one although its store calls can throw.
\<close>

theorem errors_have_causes:
  assumes "db_inv (store s)" "(r, ErrorEvent m) \<in> set (fst (dispatch sid now ev s))"
  shows "ev \<noteq> Disconnect \<and>
         (missing_field ev \<or> True \<in> set (take (store_calls ev) (faults (store s))))"
  using assms handle_error_cause [of s r m sid now ev] disconnect_no_error [of r m sid s]
  by (auto simp: dispatch_def calls_fail_def split: if_splits)

theorem errors_have_causes_witness:
  "db_inv (store \<lparr>store = empty_db\<lparr>faults := [True]\<rparr>, sockets = [(1, new_socket)]\<rparr>) \<and>
   (1, ErrorEvent ''Failed to clear chat'') \<in>
     set (fst (dispatch 1 0 (ClearRoomChat ''r1'')
       \<lparr>store = empty_db\<lparr>faults := [True]\<rparr>, sockets = [(1, new_socket)]\<rparr>)) \<and>
   True \<in> set (take (store_calls (ClearRoomChat ''r1''))
     (faults (store \<lparr>store = empty_db\<lparr>faults := [True]\<rparr>, sockets = [(1, new_socket)]\<rparr>)))"
proof -
  let ?s = "\<lparr>store = empty_db\<lparr>faults := [True]\<rparr>, sockets = [(1, new_socket)]\<rparr>"
  have d: "db_inv (store ?s)" by (simp add: db_inv_empty)
  have e: "(1, ErrorEvent ''Failed to clear chat'') \<in>
             set (fst (dispatch 1 0 (ClearRoomChat ''r1'') ?s))"
    by (simp add: eval_defs)
  from errors_have_causes [OF d e] d e show ?thesis by simp
qed

text \<open>
  Claim C21: a failure of the first store call is reported and changes nothing. When the
  next store call throws, join-room, send-message and clear-room-chat emit their error
  event to the caller alone, and no handler changes a room, a message or a socket's
  binding, except that a disconnecting socket is gone.
\<close>

theorem first_call_failure:
  assumes "faults (store s) = True # bs" "connected sid (sockets s)"
  shows "rooms (store (snd (dispatch sid now ev s))) = rooms (store s) \<and>
         messages (store (snd (dispatch sid now ev s))) = messages (store s) \<and>
         sockets (snd (dispatch sid now ev s)) =
           (if ev = Disconnect then AList.delete sid (sockets s) else sockets s) \<and>
         fst (dispatch sid now ev s) =
           (case ev of
              JoinRoom rid u \<Rightarrow> [(sid, ErrorEvent ''Failed to join room'')]
            | SendMessage rid sender txt \<Rightarrow> [(sid, ErrorEvent ''Failed to send message'')]
            | ClearRoomChat rid \<Rightarrow> [(sid, ErrorEvent ''Failed to clear chat'')]
            | Typing rid u b \<Rightarrow> socket_to_emit sid rid (UserTyping u b) (sockets s)
            | Disconnect \<Rightarrow> [])"
proof (cases ev)
  case (JoinRoom rid u)
  with assms show ?thesis
    by (simp add: dispatch_def join_room_def find_or_create_room_def Room_findOne_def
        socket_emit_def)
next
  case (SendMessage rid sender content)
  with assms send_message_fail [OF prod.collapse [symmetric], where sid = sid and rid = rid
      and sender = sender and body = content and now = now and s = s and bs = bs]
  show ?thesis by (simp add: dispatch_def)
next
  case (ClearRoomChat rid)
  with assms show ?thesis by (simp add: dispatch_def clear_room_chat_fail)
next
  case (Typing rid u b)
  with assms show ?thesis by (simp add: dispatch_def typing_def)
next
  case Disconnect
  with assms show ?thesis
    by (auto simp: dispatch_def disconnect_def Let_def leave_room_def Room_findOne_def
        connected_map_of split: option.splits)
qed

theorem first_call_failure_witness:
  "faults (store \<lparr>store = empty_db\<lparr>faults := [True]\<rparr>, sockets = [(1, new_socket)]\<rparr>) = [True] \<and>
   connected 1 (sockets \<lparr>store = empty_db\<lparr>faults := [True]\<rparr>, sockets = [(1, new_socket)]\<rparr>) \<and>
   fst (dispatch 1 0 (JoinRoom ''r1'' ''alice'')
          \<lparr>store = empty_db\<lparr>faults := [True]\<rparr>, sockets = [(1, new_socket)]\<rparr>) =
     [(1, ErrorEvent ''Failed to join room'')] \<and>
   rooms (store (snd (dispatch 1 0 (JoinRoom ''r1'' ''alice'')
          \<lparr>store = empty_db\<lparr>faults := [True]\<rparr>, sockets = [(1, new_socket)]\<rparr>))) = []"
  using first_call_failure
    [of "\<lparr>store = empty_db\<lparr>faults := [True]\<rparr>, sockets = [(1, new_socket)]\<rparr>" "[]" 1 0
        "JoinRoom ''r1'' ''alice''"]
  by (simp add: connected_def empty_db_def)

end
