(* ===== verification/Registry.thy ===== *)
theory Registry
  imports Chat_System
begin

text \<open>
  The room registry of \<^verbatim>\<open>src/server.js\<close> is kept in two places: the participant list of
  each room record, and the room and user name bound to each socket. This theory states
  when the two agree, and shows that the handlers keep them in agreement as long as
  clients are disciplined: a socket joins at most once, under a non-empty name that the
  room does not list yet, with a non-empty room id, and no store call fails. Each of
  these conditions is needed: without any one of them the handlers leave a participant
  listed that no connected socket stands for.
\<close>

section \<open>Agreement of records and sockets\<close>

definition bound_names :: "room_id \<Rightarrow> transport \<Rightarrow> username set" where
  "bound_names rid t =
     {u. \<exists>sid k. map_of t sid = Some k \<and> sock_roomId k = Some rid \<and> sock_username k = Some u}"

definition listed_names :: "room_id \<Rightarrow> db \<Rightarrow> username set" where
  "listed_names rid d = (case participants_of rid d of None \<Rightarrow> {} | Some ps \<Rightarrow> set ps)"

definition registry_consistent :: "server \<Rightarrow> bool" where
  "registry_consistent s \<longleftrightarrow> (\<forall>rid. listed_names rid (store s) = bound_names rid (sockets s))"

definition names_unique :: "transport \<Rightarrow> bool" where
  "names_unique t \<longleftrightarrow>
     (\<forall>sid sid' k k' rid u.
        map_of t sid = Some k \<longrightarrow> map_of t sid' = Some k' \<longrightarrow>
        sock_roomId k = Some rid \<longrightarrow> sock_roomId k' = Some rid \<longrightarrow>
        sock_username k = Some u \<longrightarrow> sock_username k' = Some u \<longrightarrow> sid = sid')"

definition names_nonempty :: "transport \<Rightarrow> bool" where
  "names_nonempty t \<longleftrightarrow>
     (\<forall>sid k. map_of t sid = Some k \<longrightarrow> sock_roomId k \<noteq> Some [] \<and> sock_username k \<noteq> Some [])"

definition tidy :: "server \<Rightarrow> bool" where
  "tidy s \<longleftrightarrow>
     server_inv s \<and> faults (store s) = [] \<and> names_unique (sockets s) \<and>
     names_nonempty (sockets s) \<and> registry_consistent s"

section \<open>Bound names under the operations of the transport\<close>

lemma bound_names_Nil [simp]: "bound_names rid [] = {}"
  by (simp add: bound_names_def)

lemma names_uniqueD:
  "names_unique t \<Longrightarrow> map_of t a = Some k \<Longrightarrow> map_of t b = Some k' \<Longrightarrow>
     sock_roomId k = Some x \<Longrightarrow> sock_roomId k' = Some x \<Longrightarrow>
     sock_username k = Some v \<Longrightarrow> sock_username k' = Some v \<Longrightarrow> a = b"
  unfolding names_unique_def by blast

lemma map_of_delete_SomeD:
  "map_of (AList.delete sid t) a = Some k \<Longrightarrow> a \<noteq> sid \<and> map_of t a = Some k"
  by (simp add: delete_conv' split: if_splits)

lemma map_of_connect:
  "\<not> connected sid t \<Longrightarrow>
     map_of (t @ [(sid, new_socket)]) x = (if x = sid then Some new_socket else map_of t x)"
  by (auto simp: connected_map_of map_add_def split: option.splits)

lemma bound_names_connect:
  assumes "\<not> connected sid t"
  shows "bound_names rid (t @ [(sid, new_socket)]) = bound_names rid t"
proof -
  note M = map_of_connect [OF assms]
  from assms have n: "map_of t sid = None" by (simp add: connected_map_of)
  have "v \<in> bound_names rid (t @ [(sid, new_socket)]) \<longleftrightarrow> v \<in> bound_names rid t" for v
  proof
    assume "v \<in> bound_names rid (t @ [(sid, new_socket)])"
    then obtain a k where k: "map_of (t @ [(sid, new_socket)]) a = Some k"
      "sock_roomId k = Some rid" "sock_username k = Some v"
      unfolding bound_names_def by blast
    then have "a \<noteq> sid" unfolding M by (auto simp: new_socket_def split: if_splits)
    with k show "v \<in> bound_names rid t" unfolding M bound_names_def by auto
  next
    assume "v \<in> bound_names rid t"
    then obtain a k where k: "map_of t a = Some k"
      "sock_roomId k = Some rid" "sock_username k = Some v"
      by (auto simp: bound_names_def)
    with n have "a \<noteq> sid" by auto
    with k show "v \<in> bound_names rid (t @ [(sid, new_socket)])"
      unfolding bound_names_def M by (auto intro!: exI [of _ a])
  qed
  then show ?thesis by auto
qed

lemma bound_names_bind:
  assumes "map_of t sid = Some k" "sock_roomId k = None"
  shows "bound_names x (bind_socket sid rid u t) =
           (if x = rid then insert u (bound_names x t) else bound_names x t)"
proof -
  have "v \<in> bound_names x (bind_socket sid rid u t) \<longleftrightarrow>
        (x = rid \<and> v = u) \<or> v \<in> bound_names x t" for v
  proof
    assume "v \<in> bound_names x (bind_socket sid rid u t)"
    then obtain sid' k' where "map_of (bind_socket sid rid u t) sid' = Some k'"
      "sock_roomId k' = Some x" "sock_username k' = Some v"
      by (auto simp: bound_names_def)
    with assms show "(x = rid \<and> v = u) \<or> v \<in> bound_names x t"
      by (cases "sid' = sid") (auto simp: map_of_bind_socket bound_names_def)
  next
    assume "(x = rid \<and> v = u) \<or> v \<in> bound_names x t"
    then show "v \<in> bound_names x (bind_socket sid rid u t)"
    proof
      assume "x = rid \<and> v = u"
      with assms(1) show ?thesis
        by (auto simp: bound_names_def map_of_bind_socket intro!: exI [of _ sid])
    next
      assume "v \<in> bound_names x t"
      then obtain sid' k' where k': "map_of t sid' = Some k'"
        "sock_roomId k' = Some x" "sock_username k' = Some v"
        by (auto simp: bound_names_def)
      with assms have "sid' \<noteq> sid" by auto
      with k' show ?thesis
        by (auto simp: bound_names_def map_of_bind_socket intro!: exI [of _ sid'])
    qed
  qed
  then show ?thesis by auto
qed

lemma bound_names_delete_unbound:
  assumes "map_of t sid = Some k" "sock_roomId k = None \<or> sock_username k = None"
  shows "bound_names x (AList.delete sid t) = bound_names x t"
proof -
  have "v \<in> bound_names x (AList.delete sid t) \<longleftrightarrow> v \<in> bound_names x t" for v
  proof
    assume "v \<in> bound_names x (AList.delete sid t)"
    then show "v \<in> bound_names x t"
      by (auto simp: bound_names_def delete_conv' split: if_splits)
  next
    assume "v \<in> bound_names x t"
    then obtain sid' k' where k': "map_of t sid' = Some k'"
      "sock_roomId k' = Some x" "sock_username k' = Some v"
      by (auto simp: bound_names_def)
    with assms have "sid' \<noteq> sid" by auto
    with k' show "v \<in> bound_names x (AList.delete sid t)"
      by (auto simp: bound_names_def map_of_delete_other intro!: exI [of _ sid'])
  qed
  then show ?thesis by auto
qed

lemma bound_names_delete:
  assumes "names_unique t" "map_of t sid = Some k"
    and "sock_roomId k = Some rid" "sock_username k = Some u"
  shows "bound_names x (AList.delete sid t) =
           (if x = rid then bound_names x t - {u} else bound_names x t)"
proof -
  have "v \<in> bound_names x (AList.delete sid t) \<longleftrightarrow>
        v \<in> bound_names x t \<and> \<not> (x = rid \<and> v = u)" for v
  proof
    assume "v \<in> bound_names x (AList.delete sid t)"
    then obtain sid' k' where k': "sid' \<noteq> sid" "map_of t sid' = Some k'"
      "sock_roomId k' = Some x" "sock_username k' = Some v"
      by (auto simp: bound_names_def delete_conv' split: if_splits)
    have "\<not> (x = rid \<and> v = u)"
    proof
      assume "x = rid \<and> v = u"
      with k' assms(3,4) have "sid' = sid"
        by (intro names_uniqueD [OF assms(1) k'(2) assms(2)]) simp_all
      with k'(1) show False by simp
    qed
    with k' show "v \<in> bound_names x t \<and> \<not> (x = rid \<and> v = u)"
      by (auto simp: bound_names_def)
  next
    assume a: "v \<in> bound_names x t \<and> \<not> (x = rid \<and> v = u)"
    then obtain sid' k' where k': "map_of t sid' = Some k'"
      "sock_roomId k' = Some x" "sock_username k' = Some v"
      by (auto simp: bound_names_def)
    with a assms have "sid' \<noteq> sid" by auto
    with k' show "v \<in> bound_names x (AList.delete sid t)"
      by (auto simp: bound_names_def map_of_delete_other intro!: exI [of _ sid'])
  qed
  then show ?thesis by auto
qed

lemma names_unique_delete:
  assumes "names_unique t"
  shows "names_unique (AList.delete sid t)"
  unfolding names_unique_def
proof (intro allI impI)
  fix a b k k' x v
  assume "map_of (AList.delete sid t) a = Some k" "map_of (AList.delete sid t) b = Some k'"
  then have "map_of t a = Some k" "map_of t b = Some k'"
    by (auto dest: map_of_delete_SomeD)
  moreover assume "sock_roomId k = Some x" "sock_roomId k' = Some x"
    "sock_username k = Some v" "sock_username k' = Some v"
  ultimately show "a = b" by (rule names_uniqueD [OF assms])
qed

lemma names_nonempty_delete:
  assumes "names_nonempty t"
  shows "names_nonempty (AList.delete sid t)"
  unfolding names_nonempty_def
proof (intro allI impI)
  fix a k assume "map_of (AList.delete sid t) a = Some k"
  then have "map_of t a = Some k" by (auto dest: map_of_delete_SomeD)
  with assms show "sock_roomId k \<noteq> Some [] \<and> sock_username k \<noteq> Some []"
    by (simp add: names_nonempty_def)
qed

lemma names_unique_bind:
  assumes "names_unique t" "u \<notin> bound_names rid t"
  shows "names_unique (bind_socket sid rid u t)"
  unfolding names_unique_def
proof (intro allI impI)
  fix a b k k' x v
  assume m: "map_of (bind_socket sid rid u t) a = Some k" "map_of (bind_socket sid rid u t) b = Some k'"
    and r: "sock_roomId k = Some x" "sock_roomId k' = Some x"
    and n: "sock_username k = Some v" "sock_username k' = Some v"
  consider "a = sid" "b = sid" | "a \<noteq> sid" "b \<noteq> sid" | "a = sid" "b \<noteq> sid" | "a \<noteq> sid" "b = sid"
    by blast
  then show "a = b"
  proof cases
    case 1
    then show ?thesis by simp
  next
    case 2
    with m have "map_of t a = Some k" "map_of t b = Some k'"
      by (simp_all add: map_of_bind_socket)
    then show ?thesis using r n by (rule names_uniqueD [OF assms(1)])
  next
    case 3
    with m r n have "v = u" "x = rid" "v \<in> bound_names x t"
      by (auto simp: map_of_bind_socket bound_names_def)
    with assms(2) show ?thesis by simp
  next
    case 4
    with m r n have "v = u" "x = rid" "v \<in> bound_names x t"
      by (auto simp: map_of_bind_socket bound_names_def)
    with assms(2) show ?thesis by simp
  qed
qed

lemma names_nonempty_bind:
  "names_nonempty t \<Longrightarrow> rid \<noteq> [] \<Longrightarrow> u \<noteq> [] \<Longrightarrow> names_nonempty (bind_socket sid rid u t)"
  unfolding names_nonempty_def by (auto simp: map_of_bind_socket split: if_splits)

section \<open>Listed names under the operations of the store\<close>

lemma listed_names_cong:
  "participants_of rid d' = participants_of rid d \<Longrightarrow> listed_names rid d' = listed_names rid d"
  by (simp add: listed_names_def)

lemma listed_names_add:
  "participants_of rid d' = Some (add_participant u (participants_of rid d)) \<Longrightarrow>
     listed_names rid d' = insert u (listed_names rid d)"
  by (auto simp: listed_names_def add_participant_def split: option.splits if_splits)

lemma listed_names_drop:
  "participants_of rid d' = drop_participant u (participants_of rid d) \<Longrightarrow>
     listed_names rid d' = listed_names rid d - {u}"
  by (auto simp: listed_names_def drop_participant_def filter_empty_conv
      split: option.splits if_splits)

section \<open>The handlers keep a tidy server tidy\<close>

lemma registry_consistent_frame:
  assumes "rooms (store s') = rooms (store s)" "sockets s' = sockets s"
  shows "registry_consistent s' = registry_consistent s"
  using assms
  by (simp add: registry_consistent_def listed_names_def participants_of_def find_room_def)

lemma tidy_init: "tidy init_server"
  by (simp add: tidy_def server_inv_init registry_consistent_def listed_names_def
      names_unique_def names_nonempty_def)
     (simp add: init_server_def empty_db_def participants_of_def find_room_def)

lemma names_unique_connect:
  assumes "names_unique t" "\<not> connected sid t"
  shows "names_unique (t @ [(sid, new_socket)])"
  unfolding names_unique_def
proof (intro allI impI)
  fix a b k k' x v
  assume m: "map_of (t @ [(sid, new_socket)]) a = Some k"
      "map_of (t @ [(sid, new_socket)]) b = Some k'"
    and r: "sock_roomId k = Some x" "sock_roomId k' = Some x"
    and n: "sock_username k = Some v" "sock_username k' = Some v"
  from m r have "map_of t a = Some k" "map_of t b = Some k'"
    unfolding map_of_connect [OF assms(2)] by (auto simp: new_socket_def split: if_splits)
  then show "a = b" using r n by (rule names_uniqueD [OF assms(1)])
qed

lemma names_nonempty_connect:
  assumes "names_nonempty t" "\<not> connected sid t"
  shows "names_nonempty (t @ [(sid, new_socket)])"
  using assms(1) unfolding names_nonempty_def map_of_connect [OF assms(2)]
  by (auto simp: new_socket_def)

lemma tidy_connection:
  assumes "tidy s"
  shows "tidy (connection sid s)"
proof (cases "connected sid (sockets s)")
  case True
  with assms show ?thesis by (simp add: connection_def)
next
  case False
  from assms have inv: "server_inv s" and f: "faults (store s) = []"
    and c: "registry_consistent s" and uq: "names_unique (sockets s)"
    and ne: "names_nonempty (sockets s)"
    by (simp_all add: tidy_def)
  from c False have "registry_consistent (connection sid s)"
    by (simp add: registry_consistent_def connection_def bound_names_connect)
  moreover from False have "sockets (connection sid s) = sockets s @ [(sid, new_socket)]"
    and "store (connection sid s) = store s"
    by (simp_all add: connection_def)
  ultimately show ?thesis
    using f connection_inv [OF inv, of sid] names_unique_connect [OF uq False]
      names_nonempty_connect [OF ne False]
    by (simp add: tidy_def)
qed

lemma join_room_ok_state:
  assumes "faults (store s) = []" "rid \<noteq> []"
  shows "sockets (snd (join_room sid rid u now s)) = bind_socket sid rid u (sockets s)"
    and "faults (store (snd (join_room sid rid u now s))) = []"
    and "participants_of x (store (snd (join_room sid rid u now s))) =
           (if x = rid then Some (add_participant u (participants_of rid (store s)))
            else participants_of x (store s))"
  using join_room_ok [OF assms, where u = u and sid = sid and now = now]
  by auto

lemma tidy_join_room:
  assumes "tidy s" "map_of (sockets s) sid = Some k" "sock_roomId k = None"
    and "rid \<noteq> []" "u \<noteq> []" "u \<notin> listed_names rid (store s)"
  shows "tidy (snd (join_room sid rid u now s))"
proof -
  from assms(1) have inv: "server_inv s" and f: "faults (store s) = []"
    and c: "registry_consistent s" and uq: "names_unique (sockets s)"
    and ne: "names_nonempty (sockets s)"
    by (simp_all add: tidy_def)
  let ?s' = "snd (join_room sid rid u now s)"
  note J = join_room_ok_state [OF f assms(4), where sid = sid and u = u and now = now]
  note B = bound_names_bind [OF assms(2,3), where rid = rid and u = u]
  from c assms(6) have nb: "u \<notin> bound_names rid (sockets s)"
    by (simp add: registry_consistent_def)
  from c have l: "listed_names x (store s) = bound_names x (sockets s)" for x
    by (simp add: registry_consistent_def)
  have "listed_names x (store ?s') = bound_names x (sockets ?s')" for x
  proof (cases "x = rid")
    case True
    from J(3) [of rid] have "listed_names rid (store ?s') = insert u (listed_names rid (store s))"
      by (intro listed_names_add) simp
    with True l [of rid] show ?thesis by (simp add: J(1) B)
  next
    case False
    with J(3) [of x] have "listed_names x (store ?s') = listed_names x (store s)"
      by (intro listed_names_cong) simp
    with False l [of x] show ?thesis by (simp add: J(1) B)
  qed
  then have "registry_consistent ?s'" by (simp add: registry_consistent_def)
  moreover have "server_inv ?s'" by (rule join_room_inv [OF inv prod.collapse [symmetric]])
  moreover have "names_unique (sockets ?s')" unfolding J(1) by (rule names_unique_bind [OF uq nb])
  moreover have "names_nonempty (sockets ?s')"
    unfolding J(1) by (rule names_nonempty_bind [OF ne assms(4,5)])
  ultimately show ?thesis using J(2) by (simp add: tidy_def)
qed

lemma quiet_handlers:
  assumes "faults (store s) = []" "ev \<noteq> Disconnect" "\<forall>rid u. ev \<noteq> JoinRoom rid u"
  shows "rooms (store (snd (handle sid now ev s))) = rooms (store s) \<and>
         sockets (snd (handle sid now ev s)) = sockets s \<and>
         faults (store (snd (handle sid now ev s))) = []"
  using assms
  by (cases ev)
     (simp_all add: clear_room_chat_ok send_message_def new_Message_def Message_save_def
        typing_def)

lemma tidy_quiet:
  assumes "tidy s" "ev \<noteq> Disconnect" "\<forall>rid u. ev \<noteq> JoinRoom rid u"
  shows "tidy (snd (handle sid now ev s))"
proof -
  from assms(1) have f: "faults (store s) = []" and inv: "server_inv s" by (simp_all add: tidy_def)
  note Q = quiet_handlers [OF f assms(2,3), of sid now]
  from handle_inv [OF inv prod.collapse [symmetric]]
  have "server_inv (snd (handle sid now ev s))" .
  with Q assms(1) registry_consistent_frame [of "snd (handle sid now ev s)" s]
  show ?thesis by (simp add: tidy_def)
qed

lemma disconnect_ok_state:
  assumes "server_inv s" "faults (store s) = []" "map_of (sockets s) sid = Some k"
    and "sock_roomId k = Some rid" "sock_username k = Some u" "rid \<noteq> []" "u \<noteq> []"
  shows "sockets (snd (disconnect sid s)) = AList.delete sid (sockets s)"
    and "faults (store (snd (disconnect sid s))) = []"
    and "participants_of x (store (snd (disconnect sid s))) =
           (if x = rid then drop_participant u (participants_of rid (store s))
            else participants_of x (store s))"
  using disconnect_ok [OF assms] by auto

lemma tidy_disconnect:
  assumes "tidy s" "map_of (sockets s) sid = Some k"
  shows "tidy (snd (disconnect sid s))"
proof -
  from assms(1) have inv: "server_inv s" and f: "faults (store s) = []"
    and c: "registry_consistent s" and uq: "names_unique (sockets s)"
    and ne: "names_nonempty (sockets s)"
    by (simp_all add: tidy_def)
  let ?t = "AList.delete sid (sockets s)"
  let ?s' = "snd (disconnect sid s)"
  note T = names_unique_delete [OF uq, of sid] names_nonempty_delete [OF ne, of sid]
  have I: "server_inv ?s'" by (rule disconnect_inv [OF inv prod.collapse [symmetric]])
  from c have l: "listed_names x (store s) = bound_names x (sockets s)" for x
    by (simp add: registry_consistent_def)
  show ?thesis
  proof (cases "sock_roomId k = None \<or> sock_username k = None")
    case True
    then have "\<not> (js_truthy (sock_roomId k) \<and> js_truthy (sock_username k))" by auto
    note D = disconnect_unbound [OF assms(2) this]
    from l have "registry_consistent (s\<lparr>sockets := ?t\<rparr>)"
      by (simp add: registry_consistent_def bound_names_delete_unbound [OF assms(2) True])
    with D T inv f show ?thesis by (simp add: tidy_def server_inv_def transport_inv_delete)
  next
    case False
    then obtain rid u where b: "sock_roomId k = Some rid" "sock_username k = Some u" by auto
    with ne assms(2) have n: "rid \<noteq> []" "u \<noteq> []" by (auto simp: names_nonempty_def)
    note D = disconnect_ok_state [OF inv f assms(2) b n]
    note B = bound_names_delete [OF uq assms(2) b]
    have "listed_names x (store ?s') = bound_names x (sockets ?s')" for x
    proof (cases "x = rid")
      case True
      from D(3) [of rid] have "listed_names rid (store ?s') = listed_names rid (store s) - {u}"
        by (intro listed_names_drop) simp
      with True l [of rid] show ?thesis by (simp add: D(1) B)
    next
      case False
      with D(3) [of x] have "listed_names x (store ?s') = listed_names x (store s)"
        by (intro listed_names_cong) simp
      with False l [of x] show ?thesis by (simp add: D(1) B)
    qed
    then have "registry_consistent ?s'" by (simp add: registry_consistent_def)
    with I T D(1,2) show ?thesis by (simp add: tidy_def)
  qed
qed

section \<open>Disciplined runs\<close>

text \<open>
  The states the server reaches when no store call fails and every socket joins at most
  once, with a non-empty room id and under a non-empty name the room does not list.
\<close>

inductive disciplined :: "server \<Rightarrow> bool" where
  init: "disciplined init_server"
| connect: "disciplined s \<Longrightarrow> disciplined (connection sid s)"
| join:
    "disciplined s \<Longrightarrow> map_of (sockets s) sid = Some k \<Longrightarrow> sock_roomId k = None \<Longrightarrow>
     rid \<noteq> [] \<Longrightarrow> u \<noteq> [] \<Longrightarrow> u \<notin> listed_names rid (store s) \<Longrightarrow>
     disciplined (snd (dispatch sid now (JoinRoom rid u) s))"
| send: "disciplined s \<Longrightarrow> disciplined (snd (dispatch sid now (SendMessage rid sender txt) s))"
| clear: "disciplined s \<Longrightarrow> disciplined (snd (dispatch sid now (ClearRoomChat rid) s))"
| typing: "disciplined s \<Longrightarrow> disciplined (snd (dispatch sid now (Typing rid u b) s))"
| leave: "disciplined s \<Longrightarrow> disciplined (snd (dispatch sid now Disconnect s))"

lemma disciplined_tidy: "disciplined s \<Longrightarrow> tidy s"
proof (induction rule: disciplined.induct)
  case init
  show ?case by (rule tidy_init)
next
  case (connect s sid)
  then show ?case by (simp add: tidy_connection)
next
  case (join s sid k rid u now)
  then show ?case
    by (auto simp: dispatch_def connected_map_of intro: tidy_join_room)
next
  case (send s sid now rid sender content)
  with tidy_quiet [of s "SendMessage rid sender content" sid now] show ?case
    by (auto simp: dispatch_def)
next
  case (clear s sid now rid)
  with tidy_quiet [of s "ClearRoomChat rid" sid now] show ?case
    by (auto simp: dispatch_def)
next
  case (typing s sid now rid u b)
  with tidy_quiet [of s "Typing rid u b" sid now] show ?case
    by (auto simp: dispatch_def)
next
  case (leave s sid now)
  then show ?case
    by (cases "map_of (sockets s) sid") (auto simp: dispatch_def connected_map_of tidy_disconnect)
qed

lemma disciplined_reachable: "disciplined s \<Longrightarrow> reachable s"
proof (induction rule: disciplined.induct)
  case (connect s sid)
  from reachable.step [OF connect.IH, of "Connect sid"] show ?case by simp
next
  case (join s sid k rid u now)
  from reachable.step [OF join.IH, of "Event sid now (JoinRoom rid u)"] show ?case
    by (simp add: case_prod_unfold)
next
  case (send s sid now rid sender content)
  from reachable.step [OF send.IH, of "Event sid now (SendMessage rid sender content)"]
  show ?case by (simp add: case_prod_unfold)
next
  case (clear s sid now rid)
  from reachable.step [OF clear.IH, of "Event sid now (ClearRoomChat rid)"] show ?case
    by (simp add: case_prod_unfold)
next
  case (typing s sid now rid u b)
  from reachable.step [OF typing.IH, of "Event sid now (Typing rid u b)"] show ?case
    by (simp add: case_prod_unfold)
next
  case (leave s sid now)
  from reachable.step [OF leave.IH, of "Event sid now Disconnect"] show ?case
    by (simp add: case_prod_unfold)
qed (rule reachable.init)

section \<open>Agreement, and how it is lost\<close>

text \<open>
  Claim C18: in a disciplined run (no store call fails; every socket joins at most once,
  with a non-empty room id, under a non-empty name that the room does not list) the
  participant list of every room names exactly the users of the connected sockets bound
  to that room, and a room exists exactly when such a socket exists.
\<close>

theorem disciplined_registry_consistent:
  assumes "disciplined s"
  shows "listed_names rid (store s) = bound_names rid (sockets s) \<and>
         (participants_of rid (store s) = None \<longleftrightarrow> bound_names rid (sockets s) = {})"
proof -
  from disciplined_tidy [OF assms] have c: "listed_names rid (store s) = bound_names rid (sockets s)"
    and inv: "db_inv (store s)"
    by (simp_all add: tidy_def registry_consistent_def server_inv_def)
  have "participants_of rid (store s) = None \<longleftrightarrow> listed_names rid (store s) = {}"
  proof (cases "find_room rid (store s)")
    case None
    then show ?thesis by (simp add: listed_names_def participants_of_def)
  next
    case (Some r)
    with inv have "room_participants r \<noteq> []"
      by (auto dest!: find_room_SomeD dest: db_inv_roomsD simp: room_ok_def)
    with Some show ?thesis by (simp add: listed_names_def participants_of_def)
  qed
  with c show ?thesis by simp
qed

theorem disciplined_registry_consistent_witness:
  "disciplined (snd (dispatch 1 5 (JoinRoom ''r1'' ''alice'') (connection 1 init_server))) \<and>
   listed_names ''r1''
     (store (snd (dispatch 1 5 (JoinRoom ''r1'' ''alice'') (connection 1 init_server)))) =
   bound_names ''r1''
     (sockets (snd (dispatch 1 5 (JoinRoom ''r1'' ''alice'') (connection 1 init_server))))"
proof -
  have "disciplined (snd (dispatch 1 5 (JoinRoom ''r1'' ''alice'') (connection 1 init_server)))"
    by (rule disciplined.join [OF disciplined.connect [OF disciplined.init], where k = new_socket])
       (simp_all add: eval_defs listed_names_def)
  with disciplined_registry_consistent [OF this, of "''r1''"] show ?thesis by simp
qed

text \<open>
  Claim C19: two sockets under one name. When two connected sockets are bound to the
  same room under the same name and one of them disconnects, on a store that does not
  fail, the name is removed from the room (the room is deleted if nobody else is
  listed) although the other socket is still connected and bound to it.
\<close>

theorem shared_name_removed_for_both:
  assumes "server_inv s" "faults (store s) = []" "map_of (sockets s) sid = Some k"
    and "sock_roomId k = Some rid" "sock_username k = Some u" "rid \<noteq> []" "u \<noteq> []"
    and "sid' \<noteq> sid" "map_of (sockets s) sid' = Some k'"
    and "sock_roomId k' = Some rid" "sock_username k' = Some u"
  shows "u \<notin> listed_names rid (store (snd (dispatch sid now Disconnect s))) \<and>
         u \<in> bound_names rid (sockets (snd (dispatch sid now Disconnect s)))"
proof -
  note D = disconnect_ok_state [OF assms(1-7)]
  from assms(3) have c: "connected sid (sockets s)" by (simp add: connected_map_of)
  from D(3) [of rid] have "listed_names rid (store (snd (disconnect sid s))) =
      listed_names rid (store s) - {u}"
    by (intro listed_names_drop) simp
  moreover from assms(8-11) have "u \<in> bound_names rid (AList.delete sid (sockets s))"
    unfolding bound_names_def by (auto simp: map_of_delete_other intro!: exI [of _ sid'])
  ultimately show ?thesis using c D(1) by (simp add: dispatch_def)
qed

theorem shared_name_removed_for_both_witness:
  "participants_of ''r1'' (store (snd (dispatch 1 7 Disconnect
     (exec [Connect 1, Connect 2, Event 1 5 (JoinRoom ''r1'' ''alice''),
            Event 2 6 (JoinRoom ''r1'' ''alice'')] init_server)))) = None \<and>
   ''alice'' \<in> bound_names ''r1'' (sockets (snd (dispatch 1 7 Disconnect
     (exec [Connect 1, Connect 2, Event 1 5 (JoinRoom ''r1'' ''alice''),
            Event 2 6 (JoinRoom ''r1'' ''alice'')] init_server))))"
proof -
  let ?s = "exec [Connect 1, Connect 2, Event 1 5 (JoinRoom ''r1'' ''alice''),
                  Event 2 6 (JoinRoom ''r1'' ''alice'')] init_server"
  let ?k = "\<lparr>sock_rooms = [''r1''], sock_roomId = Some ''r1'', sock_username = Some ''alice''\<rparr>"
  have inv: "server_inv ?s" by (intro exec_inv server_inv_init)
  have f: "faults (store ?s) = []" and m1: "map_of (sockets ?s) 1 = Some ?k"
    and m2: "map_of (sockets ?s) 2 = Some ?k"
    by (simp_all add: eval_defs)
  have p: "participants_of ''r1'' (store (snd (dispatch 1 7 Disconnect ?s))) = None"
    by (simp add: eval_defs)
  from shared_name_removed_for_both [OF inv f m1 _ _ _ _ _ m2, of "''r1''" "''alice''" 7] p
  show ?thesis by simp
qed

end
