(* ===== verification/Clock.thy ===== *)
theory Clock
  imports Chat_System
begin

text \<open>
  Time in \<^verbatim>\<open>src/server.js\<close>: the only clock read is \<^verbatim>\<open>new Date()\<close> in the send-message
  handler, which stamps the message it stores. The model passes the time with each
  event. This theory shows what a clock that never runs backwards gives when handlers
  run to completion: the messages are stored in order of timestamp, in the collection
  and in each room. The order in which a query returns messages of equal timestamp is
  the store's and is not decided here. When two sends overlap, the message stamped
  first can be stored last (theory \<open>Races\<close>), and the order is lost.
\<close>

section \<open>What a handler does to the messages\<close>

lemma join_room_messages:
  "messages (store (snd (join_room sid rid u now s))) = messages (store s)"
proof -
  obtain res d1 where f: "find_or_create_room rid u now (store s) = (res, d1)" by force
  obtain res2 d2 where q: "Query_exec (recent_messages_query rid) d1 = (res2, d2)" by force
  from find_or_create_room_frame [OF f] have "messages d1 = messages (store s)" by simp
  with f q Query_exec_result [OF q] show ?thesis
    by (cases res; cases res2) (simp_all add: join_room_def Let_def)
qed

lemma leave_room_messages:
  assumes "leave_room sid rid u t d = (es, d')"
  shows "messages d' = messages d"
proof -
  obtain res1 d1 where f: "Room_findOne rid d = (res1, d1)" by force
  from Room_findOne_result [OF f] have m1: "messages d1 = messages d" by simp
  have del: "messages d2 = messages d1" if "Room_deleteOne rid d1 = (r2, d2)" for r2 d2
    using Room_deleteOne_result [OF that] by simp
  have sav: "messages d2 = messages d1" if "Room_save c r' d1 = (r2, d2)" for c r' r2 d2
    using that by (cases r2) (auto dest: Room_save_Inl Room_save_Inr)
  show ?thesis
  proof (cases res1)
    case (Inl e)
    with assms f m1 show ?thesis by (simp add: leave_room_def)
  next
    case (Inr found)
    show ?thesis
    proof (cases found)
      case None
      with assms f m1 Inr show ?thesis by (simp add: leave_room_def)
    next
      case (Some r)
      let ?r' = "remove_participant u r"
      obtain r2 d2 where x: "Room_deleteOne rid d1 = (r2, d2)" by force
      obtain r3 d3 where y: "Room_save (Assigned (room_participants r)) ?r' d1 = (r3, d3)"
        by force
      from assms f Inr Some x y have "d' = d2 \<or> d' = d3"
        by (cases r3) (auto simp: leave_room_def Let_def split: if_splits)
      with del [OF x] sav [OF y] m1 show ?thesis by auto
    qed
  qed
qed

lemma disconnect_messages:
  "messages (store (snd (disconnect sid s))) = messages (store s)"
proof (cases "map_of (sockets s) sid")
  case None
  then show ?thesis by (simp add: disconnect_def)
next
  case (Some k)
  show ?thesis
  proof (cases "js_truthy (sock_roomId k) \<and> js_truthy (sock_username k)")
    case False
    from disconnect_unbound [OF Some this] show ?thesis by simp
  next
    case True
    then obtain rid u where b: "sock_roomId k = Some rid" "sock_username k = Some u"
      "rid \<noteq> []" "u \<noteq> []"
      by (cases "sock_roomId k"; cases "sock_username k") auto
    from leave_room_messages [OF prod.collapse [symmetric]] show ?thesis
      by (simp add: disconnect_bound [OF Some b] case_prod_unfold)
  qed
qed

lemma send_message_messages:
  "messages (store (snd (send_message sid rid sender txt now s))) = messages (store s) \<or>
   messages (store (snd (send_message sid rid sender txt now s))) =
     messages (store s) @
       [\<lparr>msg_id = next_oid (store s), msg_roomId = rid, msg_sender = sender, msg_text = txt,
         msg_timestamp = now\<rparr>]"
proof -
  let ?d0 = "(store s)\<lparr>next_oid := Suc (next_oid (store s))\<rparr>"
  let ?m = "\<lparr>msg_id = next_oid (store s), msg_roomId = rid, msg_sender = sender, msg_text = txt,
            msg_timestamp = now\<rparr>"
  obtain res d1 where m: "Message_save ?m ?d0 = (res, d1)" by force
  show ?thesis
  proof (cases res)
    case (Inl e)
    with m Message_save_Inl [OF m [unfolded Inl]] show ?thesis
      by (simp add: send_message_def new_Message_def)
  next
    case (Inr m')
    with m Message_save_Inr [OF m [unfolded Inr]] show ?thesis
      by (simp add: send_message_def new_Message_def)
  qed
qed

lemma clear_room_chat_messages:
  "messages (store (snd (clear_room_chat sid rid s))) = messages (store s) \<or>
   messages (store (snd (clear_room_chat sid rid s))) =
     filter (\<lambda>m. msg_roomId m \<noteq> rid) (messages (store s))"
proof -
  obtain res d1 where m: "Message_deleteMany rid (store s) = (res, d1)" by force
  from Message_deleteMany_result [OF m] m show ?thesis
    by (cases res) (auto simp: clear_room_chat_def)
qed

section \<open>Stamped in order\<close>

text \<open>\<open>stamped t s\<close>: the stored messages are in order of timestamp and none is later than \<open>t\<close>.\<close>

definition stamped :: "timestamp \<Rightarrow> server \<Rightarrow> bool" where
  "stamped t s \<longleftrightarrow>
     sorted (map msg_timestamp (messages (store s))) \<and>
     (\<forall>m \<in> set (messages (store s)). msg_timestamp m \<le> t)"

text \<open>The events of a run carry times that never decrease, starting from \<open>t\<close>.\<close>

fun monotone_from :: "timestamp \<Rightarrow> action list \<Rightarrow> bool" where
  "monotone_from t [] \<longleftrightarrow> True"
| "monotone_from t (Event sid now ev # as) \<longleftrightarrow> t \<le> now \<and> monotone_from now as"
| "monotone_from t (a # as) \<longleftrightarrow> monotone_from t as"

lemma stamped_init: "stamped t init_server"
  by (simp add: stamped_def init_server_def empty_db_def)

lemma stamped_mono: "stamped t s \<Longrightarrow> t \<le> t' \<Longrightarrow> stamped t' s"
  by (auto simp: stamped_def)

lemma stamped_frame: "stamped t s \<Longrightarrow> messages (store s') = messages (store s) \<Longrightarrow> stamped t s'"
  by (simp add: stamped_def)

lemma stamped_snoc:
  assumes "stamped t s" "t \<le> msg_timestamp m" "messages (store s') = messages (store s) @ [m]"
  shows "stamped (msg_timestamp m) s'"
  using assms by (auto simp: stamped_def sorted_append)

lemma stamped_filter:
  assumes "stamped t s" "messages (store s') = filter P (messages (store s))"
  shows "stamped t s'"
  using assms by (auto simp: stamped_def sorted_filter)

lemma handle_stamped:
  assumes "stamped t s" "t \<le> now"
  shows "stamped now (snd (handle sid now ev s))"
proof -
  from assms have n: "stamped now s" by (rule stamped_mono)
  show ?thesis
  proof (cases ev)
    case (JoinRoom rid u)
    with stamped_frame [OF n join_room_messages] show ?thesis by simp
  next
    case (SendMessage rid sender content)
    let ?m = "\<lparr>msg_id = next_oid (store s), msg_roomId = rid, msg_sender = sender,
              msg_text = content, msg_timestamp = now\<rparr>"
    from send_message_messages [of sid rid sender content now s]
    have "stamped now (snd (send_message sid rid sender content now s))"
      using stamped_frame [OF n] stamped_snoc [OF assms(1), of ?m] assms(2) by auto
    with SendMessage show ?thesis by simp
  next
    case (ClearRoomChat rid)
    from clear_room_chat_messages [of sid rid s]
    have "stamped now (snd (clear_room_chat sid rid s))"
      using stamped_frame [OF n] stamped_filter [OF n] by auto
    with ClearRoomChat show ?thesis by simp
  next
    case (Typing rid u b)
    with n show ?thesis by simp
  next
    case Disconnect
    with stamped_frame [OF n disconnect_messages] show ?thesis by simp
  qed
qed

lemma step_stamped:
  assumes "stamped t s" "monotone_from t (a # as)"
  shows "\<exists>t'. stamped t' (snd (step a s)) \<and> monotone_from t' as"
proof (cases a)
  case (Event sid now ev)
  with assms(2) have t: "t \<le> now" "monotone_from now as" by simp_all
  from handle_stamped [OF assms(1) t(1), of sid ev] stamped_mono [OF assms(1) t(1)]
  have "stamped now (snd (dispatch sid now ev s))" by (simp add: dispatch_def)
  with t(2) Event show ?thesis by (intro exI [of _ now]) (simp add: case_prod_unfold)
next
  case (Connect sid)
  with assms show ?thesis
    by (intro exI [of _ t]) (simp add: stamped_def connection_def)
next
  case (GetRoom rid)
  with assms get_room_frame [OF prod.collapse [symmetric], of rid "store s"] show ?thesis
    by (intro exI [of _ t]) (simp add: stamped_def case_prod_unfold)
next
  case (GetRoomMessages rid)
  with assms get_room_messages_frame [OF prod.collapse [symmetric], of rid "store s"]
  show ?thesis
    by (intro exI [of _ t]) (simp add: stamped_def case_prod_unfold)
next
  case (Faults bs)
  with assms show ?thesis by (intro exI [of _ t]) (simp add: stamped_def)
qed

lemma exec_stamped:
  assumes "stamped t s" "monotone_from t as"
  shows "\<exists>t'. stamped t' (exec as s)"
  using assms
proof (induction as arbitrary: t s)
  case Nil
  then show ?case by auto
next
  case (Cons a as)
  from step_stamped [OF Cons.prems] obtain t'
    where "stamped t' (snd (step a s))" "monotone_from t' as"
    by blast
  from Cons.IH [OF this] show ?case by simp
qed

lemma stamped_room_messages:
  "stamped t s \<Longrightarrow> sorted (map msg_timestamp (room_messages rid (store s)))"
  by (simp add: stamped_def room_messages_def sorted_filter)

section \<open>Send order\<close>

lemma run_stamped:
  assumes "monotone_from 0 as"
  shows "sorted (map msg_timestamp (room_messages rid (store (exec as init_server))))"
  using exec_stamped [OF stamped_init assms] by (auto intro: stamped_room_messages)

text \<open>
  Claim C24: with a clock that never runs backwards, the messages of the collection are
  stored in order of timestamp after every run of the server, whatever the events, the
  route requests and the store failures.
\<close>

theorem messages_stored_in_time_order:
  assumes "monotone_from 0 as"
  shows "sorted (map msg_timestamp (messages (store (exec as init_server))))"
  using exec_stamped [OF stamped_init assms] by (auto simp: stamped_def)

theorem messages_stored_in_time_order_witness:
  "monotone_from 0 [Connect 1, Event 1 5 (SendMessage ''r1'' ''alice'' ''hi''),
                    Event 1 7 (SendMessage ''r1'' ''alice'' ''ho'')] \<and>
   map msg_timestamp (messages (store (exec
     [Connect 1, Event 1 5 (SendMessage ''r1'' ''alice'' ''hi''),
      Event 1 7 (SendMessage ''r1'' ''alice'' ''ho'')] init_server))) = [5, 7]"
  using messages_stored_in_time_order
    [of "[Connect 1, Event 1 5 (SendMessage ''r1'' ''alice'' ''hi''),
          Event 1 7 (SendMessage ''r1'' ''alice'' ''ho'')]"]
  by (simp add: eval_defs)

end
