(* ===== verification/Interleaving.thy ===== *)
theory Interleaving
  imports Chat_System
begin

text \<open>
  The handlers of \<^verbatim>\<open>src/server.js\<close> are \<^verbatim>\<open>async\<close> functions: at every \<^verbatim>\<open>await\<close> of a store call
  the handler is suspended, and other handlers run before it resumes. This theory cuts
  each handler at its \<^verbatim>\<open>await\<close>s. A \<open>task\<close> is a suspended handler: the store call it is
  about to make, with the local variables its continuation needs. \<open>spawn\<close> runs a
  handler from the arrival of its event to its first \<^verbatim>\<open>await\<close>; \<open>resume\<close> makes the pending
  store call and runs the continuation to the next \<^verbatim>\<open>await\<close> or to the end.

  A handler that has read a room holds a copy of the document, and the copy may be out
  of date when the handler saves it: \<open>Room_save\<close> of theory \<open>Persistence\<close> sends the change,
  and the store applies it to the document it holds now, or rejects it.
\<close>

section \<open>Suspended handlers\<close>

datatype task =
    Clear_delete socket_id room_id
  | Join_find socket_id room_id username
  | Join_create socket_id room_id username room
  | Join_push socket_id room_id username room
  | Join_query socket_id room_id username room
  | Send_save socket_id room_id username string message
  | Leave_find socket_id room_id username
  | Leave_delete socket_id room_id username
  | Leave_save socket_id room_id username "username list" room

type_synonym progress = "emit list \<times> task option \<times> server"

abbreviation join_failed :: "socket_id \<Rightarrow> emit list" where
  "join_failed sid \<equiv> socket_emit sid (ErrorEvent ''Failed to join room'')"

fun spawn :: "socket_id \<Rightarrow> timestamp \<Rightarrow> in_event \<Rightarrow> server \<Rightarrow> progress" where
  "spawn sid now (ClearRoomChat rid) s = ([], Some (Clear_delete sid rid), s)"
| "spawn sid now (JoinRoom rid u) s = ([], Some (Join_find sid rid u), s)"
| "spawn sid now (SendMessage rid sender txt) s =
     (case new_Message rid sender txt now (store s) of
        (m, d0) \<Rightarrow> ([], Some (Send_save sid rid sender txt m), s\<lparr>store := d0\<rparr>))"
| "spawn sid now (Typing rid u b) s = (case typing sid rid u b s of (es, s') \<Rightarrow> (es, None, s'))"
| "spawn sid now Disconnect s =
     (case map_of (sockets s) sid of
        None \<Rightarrow> ([], None, s)
      | Some sock \<Rightarrow>
          let t = AList.delete sid (sockets s) in
          (case (sock_roomId sock, sock_username sock) of
             (Some rid, Some uname) \<Rightarrow>
               if js_truthy (Some rid) \<and> js_truthy (Some uname)
               then ([], Some (Leave_find sid rid uname), s\<lparr>sockets := t\<rparr>)
               else ([], None, s\<lparr>sockets := t\<rparr>)
           | _ \<Rightarrow> ([], None, s\<lparr>sockets := t\<rparr>)))"

text \<open>After the room record is found or saved, join-room binds the socket and queries.\<close>

definition joined :: "socket_id \<Rightarrow> room_id \<Rightarrow> username \<Rightarrow> room \<Rightarrow> db \<Rightarrow> server \<Rightarrow> progress" where
  "joined sid rid u r d s =
     ([], Some (Join_query sid rid u r), \<lparr>store = d, sockets = bind_socket sid rid u (sockets s)\<rparr>)"

fun resume :: "timestamp \<Rightarrow> task \<Rightarrow> server \<Rightarrow> progress" where
  "resume now (Clear_delete sid rid) s =
     (case Message_deleteMany rid (store s) of
        (Inl e, d) \<Rightarrow> (socket_emit sid (ErrorEvent ''Failed to clear chat''), None, s\<lparr>store := d\<rparr>)
      | (Inr n, d) \<Rightarrow> (io_to_emit rid RoomChatCleared (sockets s), None, s\<lparr>store := d\<rparr>))"
| "resume now (Join_find sid rid u) s =
     (case Room_findOne rid (store s) of
        (Inl e, d) \<Rightarrow> (join_failed sid, None, s\<lparr>store := d\<rparr>)
      | (Inr None, d) \<Rightarrow>
          (case new_Room rid u now d of
             (r, d') \<Rightarrow> ([], Some (Join_create sid rid u r), s\<lparr>store := d'\<rparr>))
      | (Inr (Some r), d) \<Rightarrow>
          if u \<in> set (room_participants r) then joined sid rid u r d s
          else ([], Some (Join_push sid rid u
                            (r\<lparr>room_participants := room_participants r @ [u]\<rparr>)),
                s\<lparr>store := d\<rparr>))"
| "resume now (Join_create sid rid u r) s =
     (case Room_save Created r (store s) of
        (Inl e, d) \<Rightarrow> (join_failed sid, None, s\<lparr>store := d\<rparr>)
      | (Inr r', d) \<Rightarrow> joined sid rid u r' d s)"
| "resume now (Join_push sid rid u r) s =
     (case Room_save (Pushed u) r (store s) of
        (Inl e, d) \<Rightarrow> (join_failed sid, None, s\<lparr>store := d\<rparr>)
      | (Inr r', d) \<Rightarrow> joined sid rid u r' d s)"
| "resume now (Join_query sid rid u r) s =
     (case Query_exec (recent_messages_query rid) (store s) of
        (Inl e, d) \<Rightarrow> (join_failed sid, None, s\<lparr>store := d\<rparr>)
      | (Inr msgs, d) \<Rightarrow>
          (socket_emit sid (RoomJoined rid (room_participants r) msgs) @
           socket_to_emit sid rid (UserJoined u (room_participants r)) (sockets s),
           None, s\<lparr>store := d\<rparr>))"
| "resume now (Send_save sid rid sender txt m) s =
     (case Message_save m (store s) of
        (Inl e, d) \<Rightarrow>
          (socket_emit sid (ErrorEvent ''Failed to send message''), None, s\<lparr>store := d\<rparr>)
      | (Inr m', d) \<Rightarrow>
          (io_to_emit rid (NewMessage (msg_id m') rid sender txt (msg_timestamp m')) (sockets s),
           None, s\<lparr>store := d\<rparr>))"
| "resume now (Leave_find sid rid u) s =
     (case Room_findOne rid (store s) of
        (Inl e, d) \<Rightarrow> ([], None, s\<lparr>store := d\<rparr>)
      | (Inr None, d) \<Rightarrow> ([], None, s\<lparr>store := d\<rparr>)
      | (Inr (Some r), d) \<Rightarrow>
          let r' = remove_participant u r in
          if length (room_participants r') = 0
          then ([], Some (Leave_delete sid rid u), s\<lparr>store := d\<rparr>)
          else ([], Some (Leave_save sid rid u (room_participants r) r'), s\<lparr>store := d\<rparr>))"
| "resume now (Leave_delete sid rid u) s =
     (case Room_deleteOne rid (store s) of (res, d) \<Rightarrow> ([], None, s\<lparr>store := d\<rparr>))"
| "resume now (Leave_save sid rid u prior r') s =
     (case Room_save (Assigned prior) r' (store s) of
        (Inl e, d) \<Rightarrow> ([], None, s\<lparr>store := d\<rparr>)
      | (Inr r'', d) \<Rightarrow>
          (socket_to_emit sid rid (UserLeft u (room_participants r')) (sockets s), None,
           s\<lparr>store := d\<rparr>))"

section \<open>Every handler ends\<close>

text \<open>
  \<open>remaining t\<close> bounds the store calls the handler suspended as \<open>t\<close> still makes. Every
  resumption lowers it, so a handler that keeps being resumed ends: \<open>run\<close> resumes one
  handler until it has ended, and its termination is that argument.
\<close>

fun remaining :: "task \<Rightarrow> nat" where
  "remaining (Join_find sid rid u) = 3"
| "remaining (Join_create sid rid u r) = 2"
| "remaining (Join_push sid rid u r) = 2"
| "remaining (Leave_find sid rid u) = 2"
| "remaining t = 1"

definition pending :: "task option \<Rightarrow> nat" where
  "pending t = (case t of None \<Rightarrow> 0 | Some t' \<Rightarrow> remaining t')"

lemma pending_simps [simp]: "pending None = 0" "pending (Some t) = remaining t"
  by (simp_all add: pending_def)

lemma remaining_pos [simp]: "0 < remaining t"
  by (cases t) simp_all

lemma remaining_le_3: "remaining t \<le> 3"
  by (cases t) simp_all

lemma resume_decreases:
  assumes "resume now t s = (es, t', s')"
  shows "pending t' < remaining t"
  using assms
  by (cases t)
     (auto simp: joined_def Let_def split: prod.splits sum.splits option.splits if_splits)

function run :: "timestamp \<Rightarrow> progress \<Rightarrow> emit list \<times> server" where
  "run now (es, None, s) = (es, s)"
| "run now (es, Some t, s) =
     (case resume now t s of (es', t', s') \<Rightarrow> run now (es @ es', t', s'))"
  by pat_completeness auto
termination
  by (relation "measure (\<lambda>(now, es, t, s). pending t)") (auto dest: resume_decreases [OF sym])

section \<open>A handler that runs alone\<close>

lemma server_updates [simp]:
  "s\<lparr>sockets := t, store := d\<rparr> = \<lparr>store = d, sockets = t\<rparr>"
  "s\<lparr>store := d', store := d\<rparr> = s\<lparr>store := d\<rparr>"
  by simp_all

lemma joined_store [simp]: "joined sid rid u r d (s\<lparr>store := d1\<rparr>) = joined sid rid u r d s"
  by (simp add: joined_def)

lemma join_room_after_room:
  assumes "find_or_create_room rid u now (store s) = (Inr r, d)"
  shows "join_room sid rid u now s =
     (case Query_exec (recent_messages_query rid) d of
        (Inl e, d2) \<Rightarrow> (join_failed sid, \<lparr>store = d2, sockets = bind_socket sid rid u (sockets s)\<rparr>)
      | (Inr msgs, d2) \<Rightarrow>
          (socket_emit sid (RoomJoined rid (room_participants r) msgs) @
           socket_to_emit sid rid (UserJoined u (room_participants r))
             (bind_socket sid rid u (sockets s)),
           \<lparr>store = d2, sockets = bind_socket sid rid u (sockets s)\<rparr>))"
  using assms by (simp add: join_room_def Let_def split: prod.splits sum.splits)

lemma run_joined:
  assumes "find_or_create_room rid u now (store s) = (Inr r, d)"
  shows "run now (joined sid rid u r d s) = join_room sid rid u now s"
  unfolding join_room_after_room [OF assms]
  by (simp add: joined_def split: prod.splits sum.splits)

lemma run_room:
  "run now
     (case find_or_create_room rid u now (store s) of
        (Inl e, d) \<Rightarrow> (join_failed sid, None, s\<lparr>store := d\<rparr>)
      | (Inr r, d) \<Rightarrow> joined sid rid u r d s) =
   join_room sid rid u now s"
proof (cases "find_or_create_room rid u now (store s)")
  case (Pair res d)
  then show ?thesis
    by (cases res) (simp_all add: run_joined join_room_def)
qed

lemma run_join:
  "run now ([], Some (Join_find sid rid u), s) = join_room sid rid u now s"
proof -
  obtain res1 d1 where f: "Room_findOne rid (store s) = (res1, d1)" by force
  obtain r1 d2 where n: "new_Room rid u now d1 = (r1, d2)" by force
  note R = run_room [where now = now and rid = rid and u = u and s = s and sid = sid]
  show ?thesis
  proof (cases res1)
    case (Inl e)
    with f show ?thesis by (simp add: join_room_def find_or_create_room_def)
  next
    case (Inr found)
    show ?thesis
    proof (cases found)
      case None
      with f Inr n have "find_or_create_room rid u now (store s) = Room_save Created r1 d2"
        by (simp add: find_or_create_room_def)
      with R f Inr None n show ?thesis
        by (simp cong: sum.case_cong prod.case_cong)
    next
      case (Some r0)
      let ?pushed = "r0\<lparr>room_participants := room_participants r0 @ [u]\<rparr>"
      show ?thesis
      proof (cases "u \<in> set (room_participants r0)")
        case True
        with f Inr Some have "find_or_create_room rid u now (store s) = (Inr r0, d1)"
          by (simp add: find_or_create_room_def)
        from run_joined [OF this, where sid = sid] f Inr Some True show ?thesis by simp
      next
        case False
        with f Inr Some
        have "find_or_create_room rid u now (store s) = Room_save (Pushed u) ?pushed d1"
          by (simp add: find_or_create_room_def)
        with R f Inr Some False show ?thesis
          by (simp cong: sum.case_cong prod.case_cong)
      qed
    qed
  qed
qed

lemma run_leave:
  "run now ([], Some (Leave_find sid rid u), \<lparr>store = d, sockets = t\<rparr>) =
     (case leave_room sid rid u t d of (es, d') \<Rightarrow> (es, \<lparr>store = d', sockets = t\<rparr>))"
proof -
  obtain res1 d1 where f: "Room_findOne rid d = (res1, d1)" by force
  show ?thesis
  proof (cases res1)
    case (Inl e)
    with f show ?thesis by (simp add: leave_room_def)
  next
    case (Inr found)
    with f show ?thesis
      by (cases found)
         (simp_all add: leave_room_def Let_def remove_participant_def
            split: prod.splits sum.splits)
  qed
qed

lemma run_disconnect: "run now (spawn sid now Disconnect s) = disconnect sid s"
proof (cases "map_of (sockets s) sid")
  case None
  then show ?thesis by (simp add: disconnect_def)
next
  case (Some k)
  let ?t = "AList.delete sid (sockets s)"
  show ?thesis
  proof (cases "js_truthy (sock_roomId k) \<and> js_truthy (sock_username k)")
    case False
    with Some disconnect_unbound [OF Some False] show ?thesis
      by (auto simp: Let_def split: option.splits)
  next
    case True
    then obtain rid u where b: "sock_roomId k = Some rid" "sock_username k = Some u"
      "rid \<noteq> []" "u \<noteq> []"
      by (cases "sock_roomId k"; cases "sock_username k") auto
    have e: "s\<lparr>sockets := ?t\<rparr> = \<lparr>store = store s, sockets = ?t\<rparr>" by (cases s) simp
    from Some b have "spawn sid now Disconnect s = ([], Some (Leave_find sid rid u), s\<lparr>sockets := ?t\<rparr>)"
      by (simp add: Let_def)
    then show ?thesis
      unfolding e disconnect_bound [OF Some b] by (simp only: run_leave)
  qed
qed

text \<open>
  A handler resumed until it ends, with nothing running in between, does what the
  handler definitions of theory \<open>Dispatcher\<close> say.
\<close>

lemma run_handle: "run now (spawn sid now ev s) = handle sid now ev s"
proof (cases ev)
  case (ClearRoomChat rid)
  then show ?thesis
    by (simp add: clear_room_chat_def split: prod.splits sum.splits)
next
  case (JoinRoom rid u)
  then show ?thesis by (simp only: spawn.simps handle.simps run_join)
next
  case (SendMessage rid sender content)
  then show ?thesis
    by (simp add: send_message_def split: prod.splits sum.splits)
next
  case (Typing rid u b)
  then show ?thesis by (simp add: typing_def)
next
  case Disconnect
  then show ?thesis by (simp only: run_disconnect handle.simps)
qed

section \<open>Interleaved runs\<close>

text \<open>
  A world is the server with its suspended handlers, everything emitted and every
  response sent so far. A move opens a connection, lets an event arrive (its handler
  runs to its first \<^verbatim>\<open>await\<close> and is suspended under the next task number), or resumes
  one suspended handler; resuming a handler that is not suspended does nothing. A
  route does nothing before its only store call and nothing but respond after it, so
  a request is one move, made when the store serves the call. \<open>Fail\<close> sets the
  outcomes of the store calls to come. \<open>play\<close> makes a list of moves, a schedule.
\<close>

record world =
  srv :: server
  pool :: "(nat \<times> task) list"
  next_task :: nat
  outbox :: "emit list"
  replies :: "http_response list"

definition init_world :: world where
  "init_world = \<lparr>srv = init_server, pool = [], next_task = 0, outbox = [], replies = []\<rparr>"

definition idle :: "server \<Rightarrow> world" where
  "idle s = \<lparr>srv = s, pool = [], next_task = 0, outbox = [], replies = []\<rparr>"

datatype move =
    Open socket_id
  | Arrive socket_id timestamp in_event
  | Advance nat timestamp
  | Request room_id
  | Request_messages room_id
  | Fail "bool list"

definition respond :: "http_response \<times> db \<Rightarrow> world \<Rightarrow> world" where
  "respond p w = (case p of (r, d) \<Rightarrow> w\<lparr>srv := (srv w)\<lparr>store := d\<rparr>, replies := replies w @ [r]\<rparr>)"

definition settle :: "nat \<Rightarrow> progress \<Rightarrow> world \<Rightarrow> world" where
  "settle tid p w =
     (case p of (es, t, s) \<Rightarrow>
        w\<lparr>srv := s, outbox := outbox w @ es,
          pool := (case t of None \<Rightarrow> AList.delete tid (pool w)
                   | Some t' \<Rightarrow> AList.update tid t' (pool w))\<rparr>)"

fun make_move :: "move \<Rightarrow> world \<Rightarrow> world" where
  "make_move (Open sid) w = w\<lparr>srv := connection sid (srv w)\<rparr>"
| "make_move (Arrive sid now ev) w =
     (if connected sid (sockets (srv w))
      then settle (next_task w) (spawn sid now ev (srv w)) (w\<lparr>next_task := Suc (next_task w)\<rparr>)
      else w\<lparr>next_task := Suc (next_task w)\<rparr>)"
| "make_move (Advance tid now) w =
     (case map_of (pool w) tid of
        None \<Rightarrow> w
      | Some t \<Rightarrow> settle tid (resume now t (srv w)) w)"
| "make_move (Request rid) w = respond (get_room rid (store (srv w))) w"
| "make_move (Request_messages rid) w = respond (get_room_messages rid (store (srv w))) w"
| "make_move (Fail bs) w = w\<lparr>srv := (srv w)\<lparr>store := (store (srv w))\<lparr>faults := bs\<rparr>\<rparr>\<rparr>"

fun play :: "move list \<Rightarrow> world \<Rightarrow> world" where
  "play [] w = w"
| "play (m # ms) w = play ms (make_move m w)"

lemma play_append [simp]: "play (ms @ ns) w = play ns (play ms w)"
  by (induction ms arbitrary: w) auto

lemma init_world_idle: "init_world = idle init_server"
  by (simp add: init_world_def idle_def)

end
