(* ===== verification/Races.thy ===== *)
theory Races
  imports Interleaving
begin

text \<open>
  Schedules of \<^verbatim>\<open>src/server.js\<close> in which two handlers overlap: both have read before
  either writes. Each section fixes one schedule, computes the world it leaves on a
  store that does not fail, and compares it with what the same events leave when each
  handler runs to its end before the next event arrives.
\<close>

section \<open>Resuming on a store that does not fail\<close>

lemma server_store_same [simp]: "s\<lparr>store := store s\<rparr> = s"
  by simp

lemma list_ex_same_doc:
  "x \<in> set xs \<Longrightarrow> room_oid x = room_oid r \<Longrightarrow> room_roomId x = room_roomId r \<Longrightarrow>
     list_ex (same_doc r) xs"
  by (auto simp: list_ex_iff same_doc_def)

lemma list_ex_update_first:
  assumes "\<And>x. Q (f x) = Q x"
  shows "list_ex Q (update_first P f xs) = list_ex Q xs"
  by (induction xs) (simp_all add: assms)

lemma resume_Join_find_ok:
  assumes "faults (store s) = []"
  shows "resume now (Join_find sid rid u) s =
     (case find_room rid (store s) of
        None \<Rightarrow>
          ([], Some (Join_create sid rid u
                 \<lparr>room_oid = next_oid (store s), room_roomId = rid, room_participants = [u],
                   room_createdAt = now, room_version = 0\<rparr>),
           s\<lparr>store := (store s)\<lparr>next_oid := Suc (next_oid (store s))\<rparr>\<rparr>)
      | Some r \<Rightarrow>
          if u \<in> set (room_participants r) then joined sid rid u r (store s) s
          else ([], Some (Join_push sid rid u
                            (r\<lparr>room_participants := room_participants r @ [u]\<rparr>)), s))"
  using assms by (simp add: Room_findOne_ok new_Room_def split: option.splits)

lemma resume_Join_create_ok:
  assumes "faults (store s) = []" "room_roomId r \<noteq> []"
  shows "resume now (Join_create sid rid u r) s =
     (if room_roomId r \<in> room_roomId ` set (rooms (store s))
      then (join_failed sid, None, s)
      else joined sid rid u r ((store s)\<lparr>rooms := rooms (store s) @ [r]\<rparr>) s)"
  using assms by (simp add: Room_save_ok validate_room_def insert_room_def)

lemma resume_Join_push_ok:
  assumes "faults (store s) = []" "room_roomId r \<noteq> []"
  shows "resume now (Join_push sid rid u r) s =
     (if \<not> list_ex (same_doc r) (rooms (store s))
      then (join_failed sid, None, s)
      else joined sid rid u (next_version r)
             ((store s)\<lparr>rooms := update_first (same_doc r)
                (\<lambda>x. next_version (x\<lparr>room_participants := room_participants x @ [u]\<rparr>))
                (rooms (store s))\<rparr>) s)"
  using assms by (simp add: Room_save_ok validate_room_def push_room_def)

lemma resume_Join_query_ok:
  assumes "faults (store s) = []"
  shows "resume now (Join_query sid rid u r) s =
     (socket_emit sid (RoomJoined rid (room_participants r)
        (take 50 (sort_key msg_timestamp (room_messages rid (store s))))) @
      socket_to_emit sid rid (UserJoined u (room_participants r)) (sockets s), None, s)"
  using assms by (simp add: Query_exec_ok run_recent_messages_query)

lemma resume_Leave_find_ok:
  assumes "faults (store s) = []"
  shows "resume now (Leave_find sid rid u) s =
     (case find_room rid (store s) of
        None \<Rightarrow> ([], None, s)
      | Some r \<Rightarrow>
          if filter (\<lambda>p. p \<noteq> u) (room_participants r) = []
          then ([], Some (Leave_delete sid rid u), s)
          else ([], Some (Leave_save sid rid u (room_participants r) (remove_participant u r)), s))"
  using assms by (simp add: Room_findOne_ok remove_participant_def Let_def split: option.splits)

lemma resume_Leave_delete_ok:
  assumes "faults (store s) = []"
  shows "resume now (Leave_delete sid rid u) s =
     ([], None,
      s\<lparr>store := (store s)\<lparr>rooms := delete_first (\<lambda>r. room_roomId r = rid) (rooms (store s))\<rparr>\<rparr>)"
  using assms by (simp add: Room_deleteOne_ok)

lemma resume_Leave_save_ok:
  assumes "faults (store s) = []" "room_roomId r' \<noteq> []" "room_participants r' \<noteq> prior"
  shows "resume now (Leave_save sid rid u prior r') s =
     (if \<not> list_ex (same_version r') (rooms (store s)) then ([], None, s)
      else (socket_to_emit sid rid (UserLeft u (room_participants r')) (sockets s), None,
            s\<lparr>store := (store s)\<lparr>rooms := update_first (same_version r')
                 (\<lambda>x. next_version (x\<lparr>room_participants := room_participants r'\<rparr>))
                 (rooms (store s))\<rparr>\<rparr>))"
  using assms by (simp add: Room_save_ok validate_room_def assign_room_def)

lemma resume_Send_save_ok:
  assumes "faults (store s) = []" "validate_message m"
  shows "resume now (Send_save sid rid sender content m) s =
     (io_to_emit rid (NewMessage (msg_id m) rid sender content (msg_timestamp m)) (sockets s),
      None, s\<lparr>store := (store s)\<lparr>messages := messages (store s) @ [m]\<rparr>\<rparr>)"
  using assms by (simp add: Message_save_ok)

lemmas resume_ok =
  resume_Join_find_ok resume_Join_create_ok resume_Join_push_ok resume_Join_query_ok
  resume_Leave_find_ok resume_Leave_delete_ok resume_Leave_save_ok resume_Send_save_ok

lemma room_messages_rooms [simp]:
  "room_messages rid (d\<lparr>rooms := rs\<rparr>) = room_messages rid d"
  "room_messages rid (d\<lparr>next_oid := n\<rparr>) = room_messages rid d"
  by (simp_all add: room_messages_def)

section \<open>Two first joins at once\<close>

text \<open>
  Two sockets join a room that does not exist, and both handlers look the room up before
  either has created it. Both create it; the unique index rejects the second record.
\<close>

definition first_joins_race ::
  "socket_id \<Rightarrow> socket_id \<Rightarrow> room_id \<Rightarrow> username \<Rightarrow> username \<Rightarrow> timestamp \<Rightarrow> move list" where
  "first_joins_race a b rid ua ub now =
     [Arrive a now (JoinRoom rid ua), Arrive b now (JoinRoom rid ub),
      Advance 0 now, Advance 1 now, Advance 0 now, Advance 1 now, Advance 0 now]"

lemma first_joins_race_run:
  assumes "faults (store s) = []" "find_room rid (store s) = None" "rid \<noteq> []"
    and "connected a (sockets s)" "connected b (sockets s)"
  shows "play (first_joins_race a b rid ua ub now) (idle s) =
         \<lparr>srv = \<lparr>store = (store s)\<lparr>rooms := rooms (store s) @
                      [\<lparr>room_oid = next_oid (store s), room_roomId = rid,
                        room_participants = [ua], room_createdAt = now, room_version = 0\<rparr>],
                    next_oid := Suc (Suc (next_oid (store s)))\<rparr>,
                 sockets = bind_socket a rid ua (sockets s)\<rparr>,
          pool = [], next_task = 2,
          outbox = join_failed b @
            socket_emit a (RoomJoined rid [ua]
              (take 50 (sort_key msg_timestamp (room_messages rid (store s))))) @
            socket_to_emit a rid (UserJoined ua [ua]) (bind_socket a rid ua (sockets s)),
          replies = []\<rparr>"
proof -
  from assms(2) have n: "rid \<notin> room_roomId ` set (rooms (store s))"
    by (simp add: find_room_None_iff)
  show ?thesis
    unfolding first_joins_race_def idle_def
    using assms n
    by (simp add: settle_def resume_Join_find_ok resume_Join_create_ok resume_Join_query_ok
        joined_def find_room_def del: resume.simps)
qed

section \<open>The last participant leaves while another joins\<close>

text \<open>
  The only participant of a room disconnects, and another socket joins the room. Both
  handlers read the room record before either writes: the leaving handler sees that
  nobody would be left and deletes the room; the joining handler has added its user in
  between, and is told it has joined.
\<close>

definition leave_join_race ::
  "socket_id \<Rightarrow> socket_id \<Rightarrow> room_id \<Rightarrow> username \<Rightarrow> timestamp \<Rightarrow> move list" where
  "leave_join_race a b rid ub now =
     [Arrive a now Disconnect, Arrive b now (JoinRoom rid ub),
      Advance 0 now, Advance 1 now, Advance 1 now, Advance 0 now, Advance 1 now]"

lemma leave_join_race_run:
  assumes "faults (store s) = []" "find_room rid (store s) = Some r"
    and "filter (\<lambda>p. p \<noteq> ua) (room_participants r) = []" "ub \<notin> set (room_participants r)"
    and "map_of (sockets s) a = Some k" "sock_roomId k = Some rid" "sock_username k = Some ua"
    and "rid \<noteq> []" "ua \<noteq> []" "connected b (sockets s)" "b \<noteq> a"
  shows "play (leave_join_race a b rid ub now) (idle s) =
         \<lparr>srv = \<lparr>store = (store s)\<lparr>rooms :=
                      delete_first (\<lambda>x. room_roomId x = rid)
                        (update_first (same_doc r)
                           (\<lambda>x. next_version (x\<lparr>room_participants := room_participants x @ [ub]\<rparr>))
                           (rooms (store s)))\<rparr>,
                 sockets = bind_socket b rid ub (AList.delete a (sockets s))\<rparr>,
          pool = [], next_task = 2,
          outbox =
            socket_emit b (RoomJoined rid (room_participants r @ [ub])
              (take 50 (sort_key msg_timestamp (room_messages rid (store s))))) @
            socket_to_emit b rid (UserJoined ub (room_participants r @ [ub]))
              (bind_socket b rid ub (AList.delete a (sockets s))),
          replies = []\<rparr>"
proof -
  from assms(5) have c: "connected a (sockets s)" by (simp add: connected_map_of)
  from assms(2) have "r \<in> set (rooms (store s))" "room_roomId r = rid"
    by (auto dest: find_room_SomeD)
  then have "list_ex (same_doc r) (rooms (store s))" "room_roomId r \<noteq> []"
    using assms(8) by (auto intro: list_ex_same_doc)
  with assms c show ?thesis
    unfolding leave_join_race_def idle_def
    by (simp add: settle_def resume_ok joined_def Let_def next_version_def del: resume.simps)
qed

section \<open>Looking a room up after an update that may be out of date\<close>

lemma same_doc_update_first [simp]:
  "list_ex (same_doc r) (update_first P (\<lambda>x. next_version (x\<lparr>room_participants := g x\<rparr>)) xs) =
     list_ex (same_doc r) xs"
  by (rule list_ex_update_first) (simp add: same_doc_def)

lemma participants_of_update_first:
  assumes "find_room rid d = Some x" "P x" "\<And>y. P y \<Longrightarrow> room_roomId y = rid"
  shows "participants_of rid'
           (d\<lparr>rooms := update_first P (\<lambda>y. next_version (y\<lparr>room_participants := g y\<rparr>))
                (rooms d)\<rparr>) =
         (if rid' = rid then Some (g x) else participants_of rid' d)"
proof -
  let ?f = "\<lambda>y. next_version (y\<lparr>room_participants := g y\<rparr>)"
  let ?d' = "d\<lparr>rooms := update_first P ?f (rooms d)\<rparr>"
  have "find_room rid' ?d' = (if rid' = rid then Some (?f x) else find_room rid' d)"
    by (rule find_room_update [where P = P and f = ?f, OF assms])
       (simp_all add: next_version_def)
  then show ?thesis by (simp add: participants_of_def next_version_def)
qed

text \<open>Once an assignment has been stored, a copy read before it has an old version.\<close>

lemma assign_makes_stale:
  assumes "distinct (map room_roomId xs)"
  shows "\<not> list_ex (same_version r)
             (update_first (same_version r)
                (\<lambda>x. next_version (x\<lparr>room_participants := ps\<rparr>)) xs)"
proof -
  let ?g = "\<lambda>x. if same_version r x then next_version (x\<lparr>room_participants := ps\<rparr>) else x"
  have "update_first (same_version r) (\<lambda>x. next_version (x\<lparr>room_participants := ps\<rparr>)) xs =
      map ?g xs"
    using assms by (rule update_first_key_map) (simp add: same_version_def same_doc_def)
  moreover have "\<not> same_version r (?g x)" for x
    by (simp add: same_version_def same_doc_def next_version_def)
  ultimately show ?thesis unfolding list_ex_iff by (metis (no_types, lifting) imageE set_map)
qed

section \<open>Two participants leave at once\<close>

text \<open>
  Two sockets bound to the same room disconnect, and both handlers read the room before
  either saves. Each assigns the participant list without its own user. The first save
  is stored and raises the version of the document; the second finds no document with
  the version it read, throws, and the \<^verbatim>\<open>catch\<close> only logs.
\<close>

definition leaves_race :: "socket_id \<Rightarrow> socket_id \<Rightarrow> timestamp \<Rightarrow> move list" where
  "leaves_race a b now =
     [Arrive a now Disconnect, Arrive b now Disconnect,
      Advance 0 now, Advance 1 now, Advance 0 now, Advance 1 now]"

lemma leaves_race_run:
  assumes "faults (store s) = []" "distinct (map room_roomId (rooms (store s)))"
    and "find_room rid (store s) = Some r"
    and "map_of (sockets s) a = Some ka" "sock_roomId ka = Some rid" "sock_username ka = Some ua"
    and "map_of (sockets s) b = Some kb" "sock_roomId kb = Some rid" "sock_username kb = Some ub"
    and "a \<noteq> b" "rid \<noteq> []" "ua \<noteq> []" "ub \<noteq> []"
    and "ua \<in> set (room_participants r)" "ub \<in> set (room_participants r)"
    and "filter (\<lambda>p. p \<noteq> ua) (room_participants r) \<noteq> []"
    and "filter (\<lambda>p. p \<noteq> ub) (room_participants r) \<noteq> []"
  shows "play (leaves_race a b now) (idle s) =
         \<lparr>srv = \<lparr>store = (store s)\<lparr>rooms := update_first (same_version r)
                      (\<lambda>x. next_version (x\<lparr>room_participants :=
                             filter (\<lambda>p. p \<noteq> ua) (room_participants r)\<rparr>))
                      (rooms (store s))\<rparr>,
                 sockets = AList.delete b (AList.delete a (sockets s))\<rparr>,
          pool = [], next_task = 2,
          outbox = socket_to_emit a rid
            (UserLeft ua (filter (\<lambda>p. p \<noteq> ua) (room_participants r)))
            (AList.delete b (AList.delete a (sockets s))),
          replies = []\<rparr>"
proof -
  from assms(4,7) have c: "connected a (sockets s)" "connected b (sockets s)"
    by (simp_all add: connected_map_of)
  from assms(3) have r: "r \<in> set (rooms (store s))" "room_roomId r = rid"
    by (auto dest: find_room_SomeD)
  then have v: "list_ex (same_version r) (rooms (store s))"
    by (auto simp: list_ex_iff same_version_def same_doc_def)
  from assms(14,15) have m: "filter (\<lambda>p. p \<noteq> ua) (room_participants r) \<noteq> room_participants r"
    "filter (\<lambda>p. p \<noteq> ub) (room_participants r) \<noteq> room_participants r"
    by (auto simp: filter_id_conv)
  note st = assign_makes_stale [OF assms(2), of r]
  from assms c r v m st show ?thesis
    unfolding leaves_race_def idle_def
    by (simp add: settle_def resume_ok Let_def remove_participant_def map_of_delete_other
        del: resume.simps)
qed

section \<open>Two joins under one name at once\<close>

text \<open>
  Two sockets join an existing room under the same name, which the room does not list,
  and both handlers read the room before either saves. Both find the name missing and
  push it; a push is stored whatever the version of the document, so the name is
  stored twice.
\<close>

definition same_name_race ::
  "socket_id \<Rightarrow> socket_id \<Rightarrow> room_id \<Rightarrow> username \<Rightarrow> timestamp \<Rightarrow> move list" where
  "same_name_race a b rid u now =
     [Arrive a now (JoinRoom rid u), Arrive b now (JoinRoom rid u),
      Advance 0 now, Advance 1 now, Advance 0 now, Advance 1 now, Advance 0 now, Advance 1 now]"

lemma same_name_race_run:
  assumes "faults (store s) = []" "find_room rid (store s) = Some r" "rid \<noteq> []"
    and "u \<notin> set (room_participants r)" "connected a (sockets s)" "connected b (sockets s)"
  shows "store (srv (play (same_name_race a b rid u now) (idle s))) =
           (store s)\<lparr>rooms :=
              update_first (same_doc r)
                (\<lambda>x. next_version (x\<lparr>room_participants := room_participants x @ [u]\<rparr>))
                (update_first (same_doc r)
                   (\<lambda>x. next_version (x\<lparr>room_participants := room_participants x @ [u]\<rparr>))
                   (rooms (store s)))\<rparr>"
    and "pool (play (same_name_race a b rid u now) (idle s)) = []"
proof -
  from assms(2) have "r \<in> set (rooms (store s))" "room_roomId r = rid"
    by (auto dest: find_room_SomeD)
  then have "list_ex (same_doc r) (rooms (store s))" "room_roomId r \<noteq> []"
    using assms(3) by (auto intro: list_ex_same_doc)
  with assms
  show "store (srv (play (same_name_race a b rid u now) (idle s))) =
           (store s)\<lparr>rooms :=
              update_first (same_doc r)
                (\<lambda>x. next_version (x\<lparr>room_participants := room_participants x @ [u]\<rparr>))
                (update_first (same_doc r)
                   (\<lambda>x. next_version (x\<lparr>room_participants := room_participants x @ [u]\<rparr>))
                   (rooms (store s)))\<rparr>"
    and "pool (play (same_name_race a b rid u now) (idle s)) = []"
    unfolding same_name_race_def idle_def
    by (simp_all add: settle_def resume_ok joined_def del: resume.simps)
qed

section \<open>Two messages sent at once\<close>

text \<open>
  Two sockets send a message. Each handler stamps its message when the event arrives
  and is suspended at \<^verbatim>\<open>save\<close>; the store serves the second save first.
\<close>

definition sends_race ::
  "socket_id \<Rightarrow> socket_id \<Rightarrow> room_id \<Rightarrow> username \<Rightarrow> username \<Rightarrow> string \<Rightarrow> string \<Rightarrow>
     timestamp \<Rightarrow> timestamp \<Rightarrow> move list" where
  "sends_race a b rid ua ub ca cb ta tb =
     [Arrive a ta (SendMessage rid ua ca), Arrive b tb (SendMessage rid ub cb),
      Advance 1 tb, Advance 0 ta]"

lemma sends_race_run:
  assumes "faults (store s) = []" "connected a (sockets s)" "connected b (sockets s)"
    and "rid \<noteq> []" "ua \<noteq> []" "ub \<noteq> []" "ca \<noteq> []" "cb \<noteq> []"
  shows "play (sends_race a b rid ua ub ca cb ta tb) (idle s) =
     \<lparr>srv = s\<lparr>store := (store s)\<lparr>next_oid := Suc (Suc (next_oid (store s))),
              messages := messages (store s) @
                [\<lparr>msg_id = Suc (next_oid (store s)), msg_roomId = rid, msg_sender = ub,
                  msg_text = cb, msg_timestamp = tb\<rparr>,
                 \<lparr>msg_id = next_oid (store s), msg_roomId = rid, msg_sender = ua,
                  msg_text = ca, msg_timestamp = ta\<rparr>]\<rparr>\<rparr>,
      pool = [], next_task = 2,
      outbox = io_to_emit rid (NewMessage (Suc (next_oid (store s))) rid ub cb tb) (sockets s) @
               io_to_emit rid (NewMessage (next_oid (store s)) rid ua ca ta) (sockets s),
      replies = []\<rparr>"
  using assms unfolding sends_race_def idle_def
  by (simp add: settle_def new_Message_def resume_Send_save_ok validate_message_def
      del: resume.simps)

section \<open>What overlapping handlers change\<close>

text \<open>
  Claim C25: two first joins at once. When two connected sockets join a room that does
  not exist and both handlers look the room up before either creates it, then on a
  store that does not fail the second creation is rejected by the unique index: the
  second socket is told that it failed to join, the room lists the first user alone
  and the sockets are as the first join alone leaves them. Run one after the other,
  the same two joins list both users.
\<close>

theorem concurrent_first_joins_reject_one:
  fixes ua ub :: username and now :: timestamp
  assumes "faults (store s) = []" "find_room rid (store s) = None" "rid \<noteq> []"
    and "connected a (sockets s)" "connected b (sockets s)"
  defines "w \<equiv> play (first_joins_race a b rid ua ub now) (idle s)"
  shows "pool w = [] \<and> faults (store (srv w)) = [] \<and>
         (b, ErrorEvent ''Failed to join room'') \<in> set (outbox w) \<and>
         participants_of rid (store (srv w)) = Some [ua] \<and>
         sockets (srv w) = bind_socket a rid ua (sockets s) \<and>
         participants_of rid (store (exec
           [Event a now (JoinRoom rid ua), Event b now (JoinRoom rid ub)] s)) =
           Some (add_participant ub (Some [ua]))"
proof -
  let ?r = "\<lparr>room_oid = next_oid (store s), room_roomId = rid, room_participants = [ua],
             room_createdAt = now, room_version = 0\<rparr>"
  let ?d = "(store s)\<lparr>rooms := rooms (store s) @ [?r], next_oid := Suc (Suc (next_oid (store s)))\<rparr>"
  from assms(2) have "find_room rid ?d = Some ?r"
    by (simp add: find_room_def find_key_append)
  then have p: "participants_of rid ?d = Some [ua]" by (simp add: participants_of_def)
  from assms(2) have n: "participants_of rid (store s) = None" by (simp add: participants_of_def)
  note S1 = step_join_ok [OF assms(1,3,4), of now ua]
  then have c: "connected b (sockets (snd (step (Event a now (JoinRoom rid ua)) s)))"
    using assms(5) by simp
  note S2 = step_join_ok [OF conjunct1 [OF S1] assms(3) c, of now ub]
  from S1 S2 n have "participants_of rid (store (exec
      [Event a now (JoinRoom rid ua), Event b now (JoinRoom rid ub)] s)) =
      Some (add_participant ub (Some [ua]))"
    by (simp add: add_participant_def)
  with p assms(1) show ?thesis
    unfolding w_def first_joins_race_run [OF assms(1-5)] by (simp add: socket_emit_def)
qed

theorem concurrent_first_joins_reject_one_witness:
  "(2, ErrorEvent ''Failed to join room'') \<in> set (outbox
      (play (first_joins_race 1 2 ''r1'' ''alice'' ''bob'' 5)
         (idle (exec [Connect 1, Connect 2] init_server)))) \<and>
   participants_of ''r1'' (store (srv
      (play (first_joins_race 1 2 ''r1'' ''alice'' ''bob'' 5)
         (idle (exec [Connect 1, Connect 2] init_server))))) = Some [''alice''] \<and>
   participants_of ''r1'' (store (exec
     [Event 1 5 (JoinRoom ''r1'' ''alice''), Event 2 5 (JoinRoom ''r1'' ''bob'')]
     (exec [Connect 1, Connect 2] init_server))) = Some [''alice'', ''bob'']"
proof -
  let ?s = "exec [Connect 1, Connect 2] init_server"
  have h: "faults (store ?s) = []" "find_room ''r1'' (store ?s) = None"
    "connected 1 (sockets ?s)" "connected 2 (sockets ?s)"
    by (simp_all add: eval_defs)
  from concurrent_first_joins_reject_one [OF h(1,2) _ h(3,4), of "''alice''" "''bob''" 5]
  show ?thesis by (simp add: add_participant_def)
qed

text \<open>
  Claim C26: the last participant leaves while another user joins. When the handler of
  the disconnect and the handler of the join both read the room record before either
  writes, then on a store that does not fail the room record is deleted after the new
  user was added to it: the joining socket is told it has joined, with the leaving user
  still in the list it is shown, and it stays bound to a room that no longer exists.
\<close>

theorem last_leave_deletes_joined_room:
  fixes now :: timestamp
  assumes "server_inv s" "faults (store s) = []" "find_room rid (store s) = Some r"
    and "filter (\<lambda>p. p \<noteq> ua) (room_participants r) = []" "ub \<notin> set (room_participants r)"
    and "map_of (sockets s) a = Some k" "sock_roomId k = Some rid" "sock_username k = Some ua"
    and "rid \<noteq> []" "ua \<noteq> []" "connected b (sockets s)" "b \<noteq> a"
  defines "w \<equiv> play (leave_join_race a b rid ub now) (idle s)"
  shows "pool w = [] \<and> faults (store (srv w)) = [] \<and>
         find_room rid (store (srv w)) = None \<and>
         (\<exists>ms. (b, RoomJoined rid (room_participants r @ [ub]) ms) \<in> set (outbox w)) \<and>
         (\<exists>k'. map_of (sockets (srv w)) b = Some k' \<and> sock_roomId k' = Some rid \<and>
               sock_username k' = Some ub)"
proof -
  let ?f = "\<lambda>x. next_version (x\<lparr>room_participants := room_participants x @ [ub]\<rparr>)"
  let ?d1 = "(store s)\<lparr>rooms := update_first (same_doc r) ?f (rooms (store s))\<rparr>"
  let ?d2 = "(store s)\<lparr>rooms := delete_first (\<lambda>x. room_roomId x = rid) (rooms ?d1)\<rparr>"
  from assms(1) have "distinct (map room_roomId (rooms ?d1))"
    by (simp add: server_inv_def db_inv_roomsD map_key_update_first)
  then have gone: "find_room rid ?d2 = None"
    by (simp add: find_room_def delete_first_key_filter find_key_filter_same)
  from assms(11,12) obtain k0 where "map_of (AList.delete a (sockets s)) b = Some k0"
    by (auto simp: connected_map_of map_of_delete_other)
  then have "\<exists>k'. map_of (bind_socket b rid ub (AList.delete a (sockets s))) b = Some k' \<and>
      sock_roomId k' = Some rid \<and> sock_username k' = Some ub"
    by (simp add: map_of_bind_socket)
  with gone assms(2) show ?thesis
    unfolding w_def leave_join_race_run [OF assms(2-12)] by (auto simp: socket_emit_def)
qed

theorem last_leave_deletes_joined_room_witness:
  "find_room ''r1'' (store (srv (play (leave_join_race 1 2 ''r1'' ''bob'' 9)
      (idle (exec [Connect 1, Connect 2, Event 1 5 (JoinRoom ''r1'' ''alice'')] init_server))))) =
     None \<and>
   (2, RoomJoined ''r1'' [''alice'', ''bob''] []) \<in> set (outbox
      (play (leave_join_race 1 2 ''r1'' ''bob'' 9)
        (idle (exec [Connect 1, Connect 2, Event 1 5 (JoinRoom ''r1'' ''alice'')] init_server)))) \<and>
   map_of (sockets (srv (play (leave_join_race 1 2 ''r1'' ''bob'' 9)
      (idle (exec [Connect 1, Connect 2, Event 1 5 (JoinRoom ''r1'' ''alice'')] init_server))))) 2 =
     Some \<lparr>sock_rooms = [''r1''], sock_roomId = Some ''r1'', sock_username = Some ''bob''\<rparr>"
proof -
  let ?s = "exec [Connect 1, Connect 2, Event 1 5 (JoinRoom ''r1'' ''alice'')] init_server"
  let ?k = "\<lparr>sock_rooms = [''r1''], sock_roomId = Some ''r1'', sock_username = Some ''alice''\<rparr>"
  let ?r = "\<lparr>room_oid = 0, room_roomId = ''r1'', room_participants = [''alice''],
             room_createdAt = 5, room_version = 0\<rparr>"
  let ?w = "play (leave_join_race 1 2 ''r1'' ''bob'' 9) (idle ?s)"
  have inv: "server_inv ?s" by (intro exec_inv server_inv_init)
  have h: "faults (store ?s) = []" "find_room ''r1'' (store ?s) = Some ?r"
    "map_of (sockets ?s) 1 = Some ?k" "connected 2 (sockets ?s)"
    by (simp_all add: eval_defs)
  from last_leave_deletes_joined_room [OF inv h(1,2) _ _ h(3) _ _ _ _ h(4), of "''alice''" "''bob''" 9]
  have "find_room ''r1'' (store (srv ?w)) = None" by simp
  moreover have "(2, RoomJoined ''r1'' [''alice'', ''bob''] []) \<in> set (outbox ?w)"
    "map_of (sockets (srv ?w)) 2 =
       Some \<lparr>sock_rooms = [''r1''], sock_roomId = Some ''r1'', sock_username = Some ''bob''\<rparr>"
    by (simp_all add: leave_join_race_def idle_def settle_def joined_def eval_defs Let_def
        list_ex_iff)
  ultimately show ?thesis by blast
qed

lemma disconnects_in_turn:
  fixes now :: timestamp
  assumes "server_inv s" "faults (store s) = []" "find_room rid (store s) = Some r"
    and "map_of (sockets s) a = Some ka" "sock_roomId ka = Some rid" "sock_username ka = Some ua"
    and "map_of (sockets s) b = Some kb" "sock_roomId kb = Some rid" "sock_username kb = Some ub"
    and "a \<noteq> b" "rid \<noteq> []" "ua \<noteq> []" "ub \<noteq> []"
    and "filter (\<lambda>p. p \<noteq> ua) (room_participants r) \<noteq> []"
  shows "participants_of rid (store (exec [Event a now Disconnect, Event b now Disconnect] s)) =
         drop_participant ub (Some (filter (\<lambda>p. p \<noteq> ua) (room_participants r)))"
proof -
  let ?s1 = "snd (step (Event a now Disconnect) s)"
  note S1 = step_disconnect_ok [OF assms(1,2,4-6,11,12), of now]
    and T1 = step_disconnect_state [OF assms(1,2,4-6,11,12), of now]
  have inv1: "server_inv ?s1" using assms(1) by (rule step_inv)
  from assms(3,14)
  have "drop_participant ua (participants_of rid (store s)) =
      Some (filter (\<lambda>p. p \<noteq> ua) (room_participants r))"
    by (simp add: participants_of_def drop_participant_def)
  with S1 have p1: "participants_of rid (store ?s1) =
      Some (filter (\<lambda>p. p \<noteq> ua) (room_participants r))"
    by simp
  from assms(7,10) have "map_of (sockets ?s1) b = Some kb"
    unfolding T1(1) by (simp add: map_of_delete_other)
  note S2 = step_disconnect_ok [OF inv1 T1(2) this assms(8,9,11,13), of now]
  with p1 show ?thesis by simp
qed

text \<open>
  Claim C13: two participants leave at once. When two sockets bound to the same room
  disconnect and both handlers read the room before either saves, then on a store that
  does not fail only the first removal is stored: the second save is rejected because
  the version of the document has changed, the handler only logs the error, and the
  second user stays in the participant list although its socket is gone and nobody is
  told that it left. Run one after the other, the same two disconnects remove both
  users.
\<close>

theorem overlapping_leaves_lose_one:
  fixes now :: timestamp
  assumes "server_inv s" "faults (store s) = []" "find_room rid (store s) = Some r"
    and "map_of (sockets s) a = Some ka" "sock_roomId ka = Some rid" "sock_username ka = Some ua"
    and "map_of (sockets s) b = Some kb" "sock_roomId kb = Some rid" "sock_username kb = Some ub"
    and "a \<noteq> b" "rid \<noteq> []" "ua \<noteq> []" "ub \<noteq> []" "ua \<noteq> ub"
    and "ua \<in> set (room_participants r)" "ub \<in> set (room_participants r)"
    and "filter (\<lambda>p. p \<noteq> ub) (room_participants r) \<noteq> []"
  defines "w \<equiv> play (leaves_race a b now) (idle s)"
  shows "pool w = [] \<and> \<not> connected b (sockets (srv w)) \<and>
         participants_of rid (store (srv w)) =
           Some (filter (\<lambda>p. p \<noteq> ua) (room_participants r)) \<and>
         ub \<in> set (filter (\<lambda>p. p \<noteq> ua) (room_participants r)) \<and>
         (\<forall>x ps. (x, UserLeft ub ps) \<notin> set (outbox w)) \<and>
         participants_of rid (store (exec [Event a now Disconnect, Event b now Disconnect] s)) =
           drop_participant ub (Some (filter (\<lambda>p. p \<noteq> ua) (room_participants r)))"
proof -
  from assms(1) have d: "distinct (map room_roomId (rooms (store s)))"
    by (simp add: server_inv_def db_inv_roomsD)
  from assms(3) have rid: "room_roomId r = rid" by (auto dest: find_room_SomeD)
  from assms(14,16) have ne: "filter (\<lambda>p. p \<noteq> ua) (room_participants r) \<noteq> []"
    by (auto simp: filter_empty_conv)
  note run = leaves_race_run [OF assms(2) d assms(3-13,15,16) ne assms(17), of now]
  have p: "participants_of rid
      ((store s)\<lparr>rooms := update_first (same_version r)
         (\<lambda>x. next_version (x\<lparr>room_participants :=
                filter (\<lambda>p. p \<noteq> ua) (room_participants r)\<rparr>)) (rooms (store s))\<rparr>) =
      Some (filter (\<lambda>p. p \<noteq> ua) (room_participants r))"
    using rid
    by (subst participants_of_update_first [OF assms(3), where P = "same_version r"])
       (simp_all add: same_version_def same_doc_def)
  note seq = disconnects_in_turn [OF assms(1-13) ne, of now]
  have out: "(x, UserLeft ub ps) \<notin> set (outbox w)" for x ps
    unfolding w_def run using assms(14) by (auto simp: socket_to_emit_def)
  have "pool w = []" "\<not> connected b (sockets (srv w))"
    "participants_of rid (store (srv w)) = Some (filter (\<lambda>p. p \<noteq> ua) (room_participants r))"
    unfolding w_def run using p by simp_all
  moreover from assms(14,16) have "ub \<in> set (filter (\<lambda>p. p \<noteq> ua) (room_participants r))"
    by simp
  ultimately show ?thesis using out seq by blast
qed

theorem overlapping_leaves_lose_one_witness:
  "participants_of ''r1'' (store (srv (play (leaves_race 1 2 9)
      (idle (exec [Connect 1, Connect 2, Event 1 5 (JoinRoom ''r1'' ''alice''),
                   Event 2 6 (JoinRoom ''r1'' ''bob'')] init_server))))) = Some [''bob''] \<and>
   \<not> connected 2 (sockets (srv (play (leaves_race 1 2 9)
      (idle (exec [Connect 1, Connect 2, Event 1 5 (JoinRoom ''r1'' ''alice''),
                   Event 2 6 (JoinRoom ''r1'' ''bob'')] init_server))))) \<and>
   participants_of ''r1'' (store (exec [Event 1 9 Disconnect, Event 2 9 Disconnect]
      (exec [Connect 1, Connect 2, Event 1 5 (JoinRoom ''r1'' ''alice''),
             Event 2 6 (JoinRoom ''r1'' ''bob'')] init_server))) = None"
proof -
  let ?s = "exec [Connect 1, Connect 2, Event 1 5 (JoinRoom ''r1'' ''alice''),
                  Event 2 6 (JoinRoom ''r1'' ''bob'')] init_server"
  let ?r = "\<lparr>room_oid = 0, room_roomId = ''r1'', room_participants = [''alice'', ''bob''],
             room_createdAt = 5, room_version = 1\<rparr>"
  let ?ka = "\<lparr>sock_rooms = [''r1''], sock_roomId = Some ''r1'', sock_username = Some ''alice''\<rparr>"
  let ?kb = "\<lparr>sock_rooms = [''r1''], sock_roomId = Some ''r1'', sock_username = Some ''bob''\<rparr>"
  have inv: "server_inv ?s" by (intro exec_inv server_inv_init)
  have h: "faults (store ?s) = []" "find_room ''r1'' (store ?s) = Some ?r"
    "map_of (sockets ?s) 1 = Some ?ka" "map_of (sockets ?s) 2 = Some ?kb"
    by (simp_all add: eval_defs list_ex_iff)
  from overlapping_leaves_lose_one [OF inv h(1,2,3) _ _ h(4), of "''alice''" "''bob''" 9]
  show ?thesis by (simp add: drop_participant_def)
qed

text \<open>
  Claim C14: two joins under one name at once. When two connected sockets join an
  existing room under the same name, which the room does not list, and both handlers
  read the room before either saves, then on a store that does not fail the name is
  stored twice: each handler finds it missing and pushes it, and a push is stored
  whatever the version of the document. Run one after the other, the second join
  finds the name and the room lists it once.
\<close>

theorem same_name_joins_listed_twice:
  fixes now :: timestamp
  assumes "faults (store s) = []" "find_room rid (store s) = Some r" "rid \<noteq> []"
    and "u \<notin> set (room_participants r)" "connected a (sockets s)" "connected b (sockets s)"
  defines "w \<equiv> play (same_name_race a b rid u now) (idle s)"
  shows "pool w = [] \<and>
         participants_of rid (store (srv w)) = Some (room_participants r @ [u, u]) \<and>
         participants_of rid (store (exec
           [Event a now (JoinRoom rid u), Event b now (JoinRoom rid u)] s)) =
           Some (room_participants r @ [u])"
proof -
  let ?f = "\<lambda>x. next_version (x\<lparr>room_participants := room_participants x @ [u]\<rparr>)"
  let ?d1 = "(store s)\<lparr>rooms := update_first (same_doc r) ?f (rooms (store s))\<rparr>"
  from assms(2) have rid: "room_roomId r = rid" by (auto dest: find_room_SomeD)
  have f1: "find_room rid ?d1 = Some (?f r)"
    using rid
    by (subst find_room_update [OF assms(2), where P = "same_doc r" and f = ?f])
       (simp_all add: same_doc_def)
  have "participants_of rid (?d1\<lparr>rooms := update_first (same_doc r) ?f (rooms ?d1)\<rparr>) =
      Some (room_participants r @ [u, u])"
    using rid
    by (subst participants_of_update_first [OF f1, where P = "same_doc r"])
       (simp_all add: same_doc_def)
  then have p: "participants_of rid (store (srv w)) = Some (room_participants r @ [u, u])"
    unfolding w_def same_name_race_run(1) [OF assms(1-6)] by simp
  from assms(2) have n: "participants_of rid (store s) = Some (room_participants r)"
    by (simp add: participants_of_def)
  note S1 = step_join_ok [OF assms(1,3,5), of now u]
  then have c: "connected b (sockets (snd (step (Event a now (JoinRoom rid u)) s)))"
    using assms(6) by simp
  note S2 = step_join_ok [OF conjunct1 [OF S1] assms(3) c, of now u]
  from S1 S2 n assms(4) have "participants_of rid (store (exec
      [Event a now (JoinRoom rid u), Event b now (JoinRoom rid u)] s)) =
      Some (room_participants r @ [u])"
    by (simp add: add_participant_def)
  with p same_name_race_run(2) [OF assms(1-6)] show ?thesis by (simp add: w_def)
qed

theorem same_name_joins_listed_twice_witness:
  "participants_of ''r1'' (store (srv (play (same_name_race 2 3 ''r1'' ''bob'' 9)
      (idle (exec [Connect 1, Connect 2, Connect 3, Event 1 5 (JoinRoom ''r1'' ''alice'')]
         init_server))))) = Some [''alice'', ''bob'', ''bob''] \<and>
   participants_of ''r1'' (store (exec
      [Event 2 9 (JoinRoom ''r1'' ''bob''), Event 3 9 (JoinRoom ''r1'' ''bob'')]
      (exec [Connect 1, Connect 2, Connect 3, Event 1 5 (JoinRoom ''r1'' ''alice'')]
         init_server))) = Some [''alice'', ''bob'']"
proof -
  let ?s = "exec [Connect 1, Connect 2, Connect 3, Event 1 5 (JoinRoom ''r1'' ''alice'')]
              init_server"
  let ?r = "\<lparr>room_oid = 0, room_roomId = ''r1'', room_participants = [''alice''],
             room_createdAt = 5, room_version = 0\<rparr>"
  have h: "faults (store ?s) = []" "find_room ''r1'' (store ?s) = Some ?r"
    "connected 2 (sockets ?s)" "connected 3 (sockets ?s)"
    by (simp_all add: eval_defs)
  from same_name_joins_listed_twice [OF h(1,2) _ _ h(3,4), of "''bob''" 9]
  show ?thesis by simp
qed

text \<open>
  Claim C23: two messages sent at once. When two connected sockets send a message and
  the store serves the save of the second handler first, then on a store that does not
  fail the second message is stored and broadcast before the first, although the first
  was stamped earlier and has the smaller id: the collection is no longer in order of
  timestamp. Handled one after the other, the same two sends are stored and broadcast
  in the order of their arrival.
\<close>

theorem overlapping_sends_out_of_order:
  fixes ta tb :: timestamp
  assumes "faults (store s) = []" "connected a (sockets s)" "connected b (sockets s)"
    and "rid \<noteq> []" "ua \<noteq> []" "ub \<noteq> []" "ca \<noteq> []" "cb \<noteq> []" "ta < tb"
  defines "w \<equiv> play (sends_race a b rid ua ub ca cb ta tb) (idle s)"
    and "ma \<equiv> \<lparr>msg_id = next_oid (store s), msg_roomId = rid, msg_sender = ua, msg_text = ca,
               msg_timestamp = ta\<rparr>"
    and "mb \<equiv> \<lparr>msg_id = Suc (next_oid (store s)), msg_roomId = rid, msg_sender = ub,
               msg_text = cb, msg_timestamp = tb\<rparr>"
  shows "pool w = [] \<and> messages (store (srv w)) = messages (store s) @ [mb, ma] \<and>
         outbox w = io_to_emit rid (NewMessage (msg_id mb) rid ub cb tb) (sockets s) @
                    io_to_emit rid (NewMessage (msg_id ma) rid ua ca ta) (sockets s) \<and>
         \<not> sorted (map msg_timestamp (messages (store (srv w)))) \<and>
         messages (store (exec [Event a ta (SendMessage rid ua ca),
                                Event b tb (SendMessage rid ub cb)] s)) =
           messages (store s) @ [ma, mb]"
proof -
  have "\<not> sorted (map msg_timestamp (messages (store s) @ [mb, ma]))"
    using assms(9) by (simp add: sorted_append ma_def mb_def)
  moreover have "messages (store (exec [Event a ta (SendMessage rid ua ca),
      Event b tb (SendMessage rid ub cb)] s)) = messages (store s) @ [ma, mb]"
    using assms(1-8) by (simp add: dispatch_def send_message_ok ma_def mb_def)
  ultimately show ?thesis
    unfolding w_def sends_race_run [OF assms(1-8)] by (simp add: ma_def mb_def)
qed

theorem overlapping_sends_out_of_order_witness:
  "map msg_timestamp (messages (store (srv (play
      (sends_race 1 2 ''r1'' ''alice'' ''bob'' ''hi'' ''ho'' 5 6)
      (idle (exec [Connect 1, Connect 2] init_server)))))) = [6, 5] \<and>
   map msg_timestamp (messages (store (exec
      [Event 1 5 (SendMessage ''r1'' ''alice'' ''hi''), Event 2 6 (SendMessage ''r1'' ''bob'' ''ho'')]
      (exec [Connect 1, Connect 2] init_server)))) = [5, 6]"
proof -
  let ?s = "exec [Connect 1, Connect 2] init_server"
  have h: "faults (store ?s) = []" "connected 1 (sockets ?s)" "connected 2 (sockets ?s)"
    "messages (store ?s) = []"
    by (simp_all add: eval_defs)
  from overlapping_sends_out_of_order [OF h(1-3), of "''r1''" "''alice''" "''bob''" "''hi''" "''ho''" 5 6]
    h(4)
  show ?thesis by simp
qed

end
