(* ===== verification/Schedules.thy ===== *)
theory Schedules
  imports Interleaving
begin

text \<open>
  Schedules of the interleaved model of theory \<open>Interleaving\<close>, and what holds of all of
  them. A handler that is resumed often enough ends, whatever else runs in between. A
  schedule that lets every handler end before the next event arrives does what the run
  of theory \<open>Chat_System\<close> does, so the handler definitions of theory \<open>Dispatcher\<close> are
  the serial runs of the interleaved model.
\<close>

section \<open>One handler resumed to its end\<close>

lemma run_prefix:
  "run now (es, t, s) = (es @ fst (run now ([], t, s)), snd (run now ([], t, s)))"
proof (induction "pending t" arbitrary: es t s rule: less_induct)
  case less
  show ?case
  proof (cases t)
    case None
    then show ?thesis by simp
  next
    case (Some t0)
    obtain es' t' s' where r: "resume now t0 s = (es', t', s')"
      by (cases "resume now t0 s") auto
    from resume_decreases [OF r] Some have "pending t' < pending t" by simp
    from less [OF this, of "es @ es'" s'] less [OF this, of es' s'] Some r
    show ?thesis by simp
  qed
qed

lemma run_resume:
  assumes "resume now t s = (es, t', s')"
  shows "run now ([], Some t, s) = (es @ fst (run now ([], t', s')), snd (run now ([], t', s')))"
  using assms run_prefix [of now es t' s'] by simp

lemma world_eqI:
  assumes "srv w = srv w'" "pool w = pool w'" "next_task w = next_task w'"
    "outbox w = outbox w'" "replies w = replies w'"
  shows "w = (w' :: world)"
  using assms by (cases w; cases w') simp

lemma settle_fields [simp]:
  "srv (settle tid (es, t, s) w) = s"
  "outbox (settle tid (es, t, s) w) = outbox w @ es"
  "next_task (settle tid (es, t, s) w) = next_task w"
  "replies (settle tid (es, t, s) w) = replies w"
  "pool (settle tid (es, None, s) w) = AList.delete tid (pool w)"
  "pool (settle tid (es, Some t', s) w) = AList.update tid t' (pool w)"
  by (simp_all add: settle_def)

lemma map_of_settle [simp]:
  "map_of (pool (settle tid (es, t, s) w)) = (map_of (pool w)) (tid := t)"
  by (cases t) (simp_all add: update_conv' delete_conv')

lemma play_replicate_Suc:
  "play (replicate (Suc k) m) w = play (replicate k m) (make_move m w)"
  by simp

lemma play_not_pending:
  "map_of (pool w) tid = None \<Longrightarrow> play (replicate k (Advance tid now)) w = w"
  by (induction k) simp_all

text \<open>
  Resuming a suspended handler as often as it has store calls left, with nothing in
  between, leaves what \<open>run\<close> computes, and the handler is no longer suspended.
\<close>

lemma play_advances:
  assumes "map_of (pool w) tid = Some t" "remaining t \<le> k"
  shows "play (replicate k (Advance tid now)) w =
     w\<lparr>srv := snd (run now ([], Some t, srv w)),
       outbox := outbox w @ fst (run now ([], Some t, srv w)),
       pool := AList.delete tid (pool w)\<rparr>"
  using assms
proof (induction k arbitrary: w t)
  case 0
  from 0(2) remaining_pos [of t] have False by linarith
  then show ?case ..
next
  case (Suc k)
  obtain es t' s' where r: "resume now t (srv w) = (es, t', s')"
    by (cases "resume now t (srv w)") auto
  let ?w = "settle tid (es, t', s') w"
  from Suc.prems(1) r have m: "make_move (Advance tid now) w = ?w" by simp
  show ?case
  proof (cases t')
    case None
    with r have "run now ([], Some t, srv w) = (es, s')" by simp
    moreover from None have "play (replicate k (Advance tid now)) ?w = ?w"
      by (intro play_not_pending) simp
    ultimately show ?thesis
      unfolding play_replicate_Suc m using None by (intro world_eqI) simp_all
  next
    case (Some t1)
    from resume_decreases [OF r] Some Suc.prems(2) have "remaining t1 \<le> k" by simp
    from Suc.IH [OF _ this, of ?w] Some run_resume [OF r] show ?thesis
      unfolding play_replicate_Suc m by (intro world_eqI) (simp_all add: delete_update_same)
  qed
qed

section \<open>Serial schedules\<close>

text \<open>
  \<open>atomic\<close> lets an event arrive and resumes its handler three times, which is as many
  store calls as a handler makes. \<open>serial\<close> turns a run of theory \<open>Chat_System\<close> into the
  schedule that handles one action after the other.
\<close>

definition atomic :: "nat \<Rightarrow> socket_id \<Rightarrow> timestamp \<Rightarrow> in_event \<Rightarrow> move list" where
  "atomic tid sid now ev = Arrive sid now ev # replicate 3 (Advance tid now)"

fun serial :: "nat \<Rightarrow> action list \<Rightarrow> move list" where
  "serial n [] = []"
| "serial n (Connect sid # as) = Open sid # serial n as"
| "serial n (Event sid now ev # as) = atomic n sid now ev @ serial (Suc n) as"
| "serial n (GetRoom rid # as) = Request rid # serial n as"
| "serial n (GetRoomMessages rid # as) = Request_messages rid # serial n as"
| "serial n (Faults bs # as) = Fail bs # serial n as"

fun is_event :: "action \<Rightarrow> bool" where
  "is_event (Event sid now ev) = True"
| "is_event a = False"

fun emitted :: "reaction \<Rightarrow> emit list" where
  "emitted (Emitted es) = es"
| "emitted r = []"

fun replied :: "reaction \<Rightarrow> http_response list" where
  "replied (Replied r) = [r]"
| "replied r = []"

definition fresh_tasks :: "world \<Rightarrow> bool" where
  "fresh_tasks w \<longleftrightarrow> (\<forall>k \<in> fst ` set (pool w). k < next_task w)"

lemma fresh_tasks_idle [simp]: "fresh_tasks (idle s)"
  by (simp add: fresh_tasks_def idle_def)

lemma fresh_tasks_next: "fresh_tasks w \<Longrightarrow> map_of (pool w) (next_task w) = None"
  by (force simp: fresh_tasks_def map_of_eq_None_iff)

lemma delete_fresh: "fresh_tasks w \<Longrightarrow> AList.delete (next_task w) (pool w) = pool w"
  by (rule AList.delete_id) (auto simp: fresh_tasks_def)

lemma play_atomic:
  assumes "fresh_tasks w"
  shows "play (atomic (next_task w) sid now ev) w =
     w\<lparr>srv := snd (dispatch sid now ev (srv w)),
       outbox := outbox w @ fst (dispatch sid now ev (srv w)),
       next_task := Suc (next_task w)\<rparr>"
proof (cases "connected sid (sockets (srv w))")
  case False
  with fresh_tasks_next [OF assms] show ?thesis
    by (simp add: atomic_def dispatch_def play_not_pending)
next
  case True
  let ?n = "next_task w"
  obtain es t s where sp: "spawn sid now ev (srv w) = (es, t, s)"
    by (cases "spawn sid now ev (srv w)") auto
  let ?w = "settle ?n (es, t, s) (w\<lparr>next_task := Suc ?n\<rparr>)"
  from True sp have m: "make_move (Arrive sid now ev) w = ?w" by simp
  from run_handle [of now sid ev "srv w"] sp True
  have h: "dispatch sid now ev (srv w) = run now (es, t, s)" by (simp add: dispatch_def)
  show ?thesis
  proof (cases t)
    case None
    with fresh_tasks_next [OF assms]
    have "play (replicate 3 (Advance ?n now)) ?w = ?w" by (intro play_not_pending) simp
    with None h delete_fresh [OF assms] show ?thesis
      unfolding atomic_def play.simps m by (intro world_eqI) simp_all
  next
    case (Some t1)
    have "play (replicate 3 (Advance ?n now)) ?w =
       ?w\<lparr>srv := snd (run now ([], Some t1, srv ?w)),
          outbox := outbox ?w @ fst (run now ([], Some t1, srv ?w)),
          pool := AList.delete ?n (pool ?w)\<rparr>"
      using Some by (intro play_advances) (simp_all add: remaining_le_3)
    with Some h run_prefix [of now es t s] delete_fresh [OF assms] show ?thesis
      unfolding atomic_def play.simps m
      by (intro world_eqI) (simp_all add: delete_update_same)
  qed
qed

lemma play_atomic_fresh:
  "fresh_tasks w \<Longrightarrow> fresh_tasks (play (atomic (next_task w) sid now ev) w)"
  by (simp add: play_atomic) (auto simp: fresh_tasks_def)

lemma make_move_serial:
  "make_move (Open sid) w = w\<lparr>srv := snd (step (Connect sid) (srv w))\<rparr>"
  "make_move (Request rid) w =
     w\<lparr>srv := snd (step (GetRoom rid) (srv w)),
       replies := replies w @ replied (fst (step (GetRoom rid) (srv w)))\<rparr>"
  "make_move (Request_messages rid) w =
     w\<lparr>srv := snd (step (GetRoomMessages rid) (srv w)),
       replies := replies w @ replied (fst (step (GetRoomMessages rid) (srv w)))\<rparr>"
  "make_move (Fail bs) w = w\<lparr>srv := snd (step (Faults bs) (srv w))\<rparr>"
  by (simp_all add: respond_def split: prod.splits)

lemma play_serial:
  assumes "fresh_tasks w"
  shows "play (serial (next_task w) as) w =
     w\<lparr>srv := exec as (srv w),
       outbox := outbox w @ concat (map emitted (reactions as (srv w))),
       replies := replies w @ concat (map replied (reactions as (srv w))),
       next_task := next_task w + length (filter is_event as)\<rparr>"
  using assms
proof (induction as arbitrary: w)
  case Nil
  then show ?case by simp
next
  case (Cons a as)
  show ?case
  proof (cases a)
    case (Event sid now ev)
    let ?w = "play (atomic (next_task w) sid now ev) w"
    from play_atomic [OF Cons.prems, of sid now ev]
    have n: "next_task ?w = Suc (next_task w)" by simp
    from Cons.IH [OF play_atomic_fresh [OF Cons.prems], of sid now ev] Event show ?thesis
      unfolding n by (simp add: play_atomic [OF Cons.prems] split: prod.splits)
  next
    case (Connect sid)
    have "fresh_tasks (make_move (Open sid) w)"
      using Cons.prems by (simp add: fresh_tasks_def)
    from Cons.IH [OF this] Connect show ?thesis by simp
  next
    case (GetRoom rid)
    have "fresh_tasks (make_move (Request rid) w)"
      using Cons.prems by (simp add: fresh_tasks_def respond_def split: prod.splits)
    from Cons.IH [OF this] GetRoom show ?thesis
      by (simp add: respond_def split: prod.splits)
  next
    case (GetRoomMessages rid)
    have "fresh_tasks (make_move (Request_messages rid) w)"
      using Cons.prems by (simp add: fresh_tasks_def respond_def split: prod.splits)
    from Cons.IH [OF this] GetRoomMessages show ?thesis
      by (simp add: respond_def split: prod.splits)
  next
    case (Faults bs)
    have "fresh_tasks (make_move (Fail bs) w)"
      using Cons.prems by (simp add: fresh_tasks_def)
    from Cons.IH [OF this] Faults show ?thesis by simp
  qed
qed

section \<open>Every resumed handler ends\<close>

text \<open>
  \<open>advances tid ms\<close> counts the moves of the schedule \<open>ms\<close> that resume the handler
  \<open>tid\<close>. The store calls a suspended handler has left never grow while other handlers
  run, and shrink with every move that resumes it.
\<close>

fun advances :: "nat \<Rightarrow> move list \<Rightarrow> nat" where
  "advances tid [] = 0"
| "advances tid (Advance k now # ms) = (if k = tid then Suc (advances tid ms) else advances tid ms)"
| "advances tid (m # ms) = advances tid ms"

lemma pending_0_iff [simp]: "pending t = 0 \<longleftrightarrow> t = None"
  by (cases t) simp_all

lemma pending_le_3: "pending t \<le> 3"
  by (cases t) (simp_all add: remaining_le_3)

lemma next_task_make_move: "next_task w \<le> next_task (make_move m w)"
  by (cases m) (simp_all add: settle_def respond_def split: option.splits prod.splits)

lemma next_task_play: "next_task w \<le> next_task (play ms w)"
  by (induction ms arbitrary: w) (auto intro: order_trans [OF next_task_make_move])

lemma pool_respond [simp]: "pool (respond p w) = pool w" "outbox (respond p w) = outbox w"
  by (simp_all add: respond_def split: prod.splits)

lemma map_of_settle_other:
  "k \<noteq> tid \<Longrightarrow> map_of (pool (settle k p w)) tid = map_of (pool w) tid"
  by (cases p) simp

lemma make_move_elsewhere:
  assumes "tid < next_task w" "advances tid [m] = 0"
  shows "map_of (pool (make_move m w)) tid = map_of (pool w) tid"
proof (cases m)
  case (Arrive sid now ev)
  with assms(1) show ?thesis
    by (cases "spawn sid now ev (srv w)") simp
next
  case (Advance k now)
  with assms(2) show ?thesis
    by (simp add: map_of_settle_other split: option.splits if_splits)
qed simp_all

lemma make_move_pending:
  assumes "tid < next_task w"
  shows "pending (map_of (pool (make_move m w)) tid) \<le>
     pending (map_of (pool w) tid) - advances tid [m]"
proof (cases "advances tid [m] = 0")
  case True
  with make_move_elsewhere [OF assms this] show ?thesis by simp
next
  case False
  then obtain now where m: "m = Advance tid now"
    by (cases m) (simp_all split: if_splits)
  show ?thesis
  proof (cases "map_of (pool w) tid")
    case None
    with m show ?thesis by simp
  next
    case (Some t)
    obtain es t' s' where r: "resume now t (srv w) = (es, t', s')"
      by (cases "resume now t (srv w)") auto
    from resume_decreases [OF r] m Some r show ?thesis by simp
  qed
qed

lemma advances_Cons: "advances tid (m # ms) = advances tid [m] + advances tid ms"
  by (cases m) simp_all

lemma play_pending:
  "tid < next_task w \<Longrightarrow>
     pending (map_of (pool (play ms w)) tid) \<le> pending (map_of (pool w) tid) - advances tid ms"
proof (induction ms arbitrary: w)
  case Nil
  then show ?case by simp
next
  case (Cons m ms)
  from Cons.prems next_task_make_move [of w m] have "tid < next_task (make_move m w)" by simp
  from Cons.IH [OF this] make_move_pending [OF Cons.prems, of m] show ?case
    unfolding advances_Cons [of tid m ms] by simp
qed

section \<open>Every join is answered\<close>

text \<open>
  A join-room handler answers its socket on every path: with \<^verbatim>\<open>room-joined\<close>, or with the
  \<^verbatim>\<open>error\<close> event of its \<^verbatim>\<open>catch\<close>. \<open>awaiting\<close> says that the handler is still a suspended
  join-room handler of the socket, or the answer is out.
\<close>

fun join_task :: "socket_id \<Rightarrow> task \<Rightarrow> bool" where
  "join_task sid (Join_find k rid u) = (k = sid)"
| "join_task sid (Join_create k rid u r) = (k = sid)"
| "join_task sid (Join_push k rid u r) = (k = sid)"
| "join_task sid (Join_query k rid u r) = (k = sid)"
| "join_task sid t = False"

fun join_answer :: "out_event \<Rightarrow> bool" where
  "join_answer (RoomJoined rid ps ms) = True"
| "join_answer (ErrorEvent msg) = (msg = ''Failed to join room'')"
| "join_answer e = False"

definition answered :: "socket_id \<Rightarrow> emit list \<Rightarrow> bool" where
  "answered sid es = list_ex join_answer (received sid es)"

definition awaiting :: "socket_id \<Rightarrow> nat \<Rightarrow> world \<Rightarrow> bool" where
  "awaiting sid tid w =
     (case map_of (pool w) tid of None \<Rightarrow> answered sid (outbox w) | Some t \<Rightarrow> join_task sid t)"

lemma answered_append [simp]: "answered sid (es @ fs) \<longleftrightarrow> answered sid es \<or> answered sid fs"
  by (simp add: answered_def received_def)

lemma answered_socket_emit [simp]:
  "answered sid (socket_emit k e) \<longleftrightarrow> k = sid \<and> join_answer e"
  by (simp add: answered_def received_def socket_emit_def)

lemma resume_join_task:
  assumes "join_task sid t" "resume now t s = (es, t', s')"
  shows "case t' of None \<Rightarrow> answered sid es | Some t1 \<Rightarrow> join_task sid t1"
  using assms
  by (cases t)
     (auto simp: joined_def split: prod.splits sum.splits option.splits if_splits)

lemma make_move_awaiting:
  assumes "tid < next_task w" "awaiting sid tid w"
  shows "awaiting sid tid (make_move m w)"
proof (cases m)
  case (Arrive k now ev)
  with assms show ?thesis
    by (cases "spawn k now ev (srv w)") (simp add: awaiting_def split: option.splits)
next
  case (Advance k now)
  show ?thesis
  proof (cases "map_of (pool w) k")
    case None
    with Advance assms(2) show ?thesis by simp
  next
    case (Some t)
    obtain es t' s' where r: "resume now t (srv w) = (es, t', s')"
      by (cases "resume now t (srv w)") auto
    show ?thesis
    proof (cases "k = tid")
      case True
      with Some assms(2) have "join_task sid t" by (simp add: awaiting_def)
      from resume_join_task [OF this r] Advance Some r True show ?thesis
        by (simp add: awaiting_def split: option.splits)
    next
      case False
      with Advance Some r assms(2) show ?thesis
        by (simp add: awaiting_def split: option.splits)
    qed
  qed
qed (use assms in \<open>simp_all add: awaiting_def split: option.splits\<close>)

lemma play_awaiting:
  "tid < next_task w \<Longrightarrow> awaiting sid tid w \<Longrightarrow> awaiting sid tid (play ms w)"
proof (induction ms arbitrary: w)
  case Nil
  then show ?case by simp
next
  case (Cons m ms)
  from Cons.prems(1) next_task_make_move [of w m] have "tid < next_task (make_move m w)" by simp
  from Cons.IH [OF this make_move_awaiting [OF Cons.prems]] show ?case by simp
qed

lemma play_ends:
  assumes "tid < next_task w" "3 \<le> advances tid ms"
  shows "map_of (pool (play ms w)) tid = None"
proof -
  from play_pending [OF assms(1), of ms] pending_le_3 [of "map_of (pool w) tid"] assms(2)
  have "pending (map_of (pool (play ms w)) tid) = 0" by linarith
  then show ?thesis by simp
qed

section \<open>What holds of every schedule\<close>

text \<open>
  Serial schedules are the runs of theory \<open>Chat_System\<close>. The schedule that
  lets every handler end before the next action starts leaves the server that the
  handlers run to completion leave, has emitted what they emit and answered what the
  routes answer, in the same order, and leaves no handler suspended.
\<close>

lemma serial_schedule_is_run:
  "play (serial 0 as) (idle s) =
     \<lparr>srv = exec as s, pool = [], next_task = length (filter is_event as),
      outbox = concat (map emitted (reactions as s)),
      replies = concat (map replied (reactions as s))\<rparr>"
  using play_serial [OF fresh_tasks_idle, of s as] by (simp add: idle_def)

text \<open>
  Claim C17: a handler that is resumed three times has ended, whatever runs in
  between. In every schedule, whichever connections open, events arrive, routes are
  requested, store calls fail and other handlers are resumed in between, a handler
  whose event has arrived is no longer suspended once the schedule has resumed it
  three times.
\<close>

theorem resumed_handler_ends:
  assumes "tid < next_task w" "3 \<le> advances tid ms"
  shows "map_of (pool (play ms w)) tid = None"
  using assms by (rule play_ends)

theorem resumed_handler_ends_witness:
  "map_of (pool (play [Advance 0 6, Open 2, Advance 0 7, Arrive 2 8 (JoinRoom ''r1'' ''bob''),
                       Advance 1 8, Fail [True], Advance 0 9]
                      (play [Open 1, Arrive 1 5 (JoinRoom ''r1'' ''alice'')] init_world))) 0 = None"
  using resumed_handler_ends [of 0 "play [Open 1, Arrive 1 5 (JoinRoom ''r1'' ''alice'')] init_world"
      "[Advance 0 6, Open 2, Advance 0 7, Arrive 2 8 (JoinRoom ''r1'' ''bob''),
        Advance 1 8, Fail [True], Advance 0 9]"]
  by (simp add: eval_defs init_world_def settle_def)

text \<open>
  Claim C16: every join is answered. When join-room arrives on a connected socket, then
  in every schedule that resumes its handler three times, whatever else runs in
  between and whichever store calls fail, the socket has been sent \<^verbatim>\<open>room-joined\<close> or the
  \<^verbatim>\<open>error\<close> event of the handler.
\<close>

theorem join_is_answered:
  assumes "connected sid (sockets (srv w))" "3 \<le> advances (next_task w) ms"
  shows "answered sid (outbox (play (Arrive sid now (JoinRoom rid u) # ms) w))"
proof -
  let ?w = "make_move (Arrive sid now (JoinRoom rid u)) w"
  from assms(1) have n: "next_task w < next_task ?w" and a: "awaiting sid (next_task w) ?w"
    by (simp_all add: awaiting_def)
  from play_ends [OF n assms(2)] play_awaiting [OF n a, of ms] show ?thesis
    by (simp add: awaiting_def)
qed

theorem join_is_answered_witness:
  "answered 1 (outbox (play [Arrive 1 5 (JoinRoom ''r1'' ''alice''), Advance 0 6, Fail [True],
                             Advance 0 7, Advance 0 9]
                            (play [Open 1] init_world)))"
  using join_is_answered [of 1 "play [Open 1] init_world"
      "[Advance 0 6, Fail [True], Advance 0 7, Advance 0 9]" 5 "''r1''" "''alice''"]
  by (simp add: eval_defs init_world_def)

end
