(* ===== verification/World_Inv.thy ===== *)
theory World_Inv
  imports Schedules
begin

text \<open>
  What stays true of the server in every interleaved run. The invariant \<open>db_inv\<close> of
  theory \<open>Persistence\<close> does not: two joins under one name that overlap store the name
  twice (theory \<open>Races\<close>). \<open>store_wf\<close> is \<open>db_inv\<close> without that clause, and \<open>world_inv\<close>
  adds what the suspended handlers hold: a document a handler has built and not yet
  saved has an id that no stored document and no other suspended handler has, and a
  copy a handler read and is about to save agrees on \<^verbatim>\<open>roomId\<close> with the stored room of its
  \<^verbatim>\<open>_id\<close>. The latter gives \<open>save_filter_by_id\<close>: in every interleaved run the filters
  \<open>same_doc\<close> and \<open>same_version\<close> of a save select by \<^verbatim>\<open>_id\<close>, and by \<^verbatim>\<open>_id\<close> and \<^verbatim>\<open>__v\<close>.
\<close>

section \<open>Well-formed stores under interleaving\<close>

definition room_wf :: "room \<Rightarrow> bool" where
  "room_wf r \<longleftrightarrow> validate_room r \<and> room_participants r \<noteq> []"

definition store_wf :: "db \<Rightarrow> bool" where
  "store_wf d \<longleftrightarrow>
     distinct (map room_roomId (rooms d)) \<and> distinct (map room_oid (rooms d)) \<and>
     (\<forall>r \<in> set (rooms d). room_wf r \<and> room_oid r < next_oid d) \<and>
     distinct (map msg_id (messages d)) \<and> (\<forall>m \<in> set (messages d). message_ok d m)"

definition stored_ids :: "db \<Rightarrow> object_id list" where
  "stored_ids d = map room_oid (rooms d) @ map msg_id (messages d)"

definition doc_keys :: "db \<Rightarrow> (object_id \<times> room_id) list" where
  "doc_keys d = map (\<lambda>x. (room_oid x, room_roomId x)) (rooms d)"

text \<open>
  \<open>grows ids d d'\<close>: the store \<open>d'\<close> is well formed, has drawn no id back, and holds no
  document that \<open>d\<close> did not hold but those with an id of \<open>ids\<close>; a room it holds under
  another id was held by \<open>d\<close> under that \<^verbatim>\<open>_id\<close> and with that \<^verbatim>\<open>roomId\<close>.
\<close>

definition grows :: "object_id list \<Rightarrow> db \<Rightarrow> db \<Rightarrow> bool" where
  "grows ids d d' \<longleftrightarrow>
     store_wf d' \<and> next_oid d \<le> next_oid d' \<and>
     set (stored_ids d') \<subseteq> set (stored_ids d) \<union> set ids \<and>
     (\<forall>k \<in> set (doc_keys d'). k \<in> set (doc_keys d) \<or> fst k \<in> set ids)"

lemma db_inv_store_wf:
  "db_inv d \<longleftrightarrow> store_wf d \<and> (\<forall>r \<in> set (rooms d). distinct (room_participants r))"
  by (auto simp: db_inv_def store_wf_def room_ok_def room_wf_def)

lemma store_wf_empty [simp]: "store_wf empty_db"
  by (simp add: store_wf_def empty_db_def)

lemma stored_ids_below: "store_wf d \<Longrightarrow> i \<in> set (stored_ids d) \<Longrightarrow> i < next_oid d"
  by (auto simp: store_wf_def stored_ids_def message_ok_def)

lemma grows_frame:
  assumes "store_wf d" "rooms d' = rooms d" "messages d' = messages d" "next_oid d \<le> next_oid d'"
  shows "grows ids d d'"
  using assms by (fastforce simp: grows_def store_wf_def stored_ids_def doc_keys_def message_ok_def)

lemma grows_more: "grows ids d d' \<Longrightarrow> set ids \<subseteq> set ids' \<Longrightarrow> grows ids' d d'"
  by (auto simp: grows_def)

lemma grows_trans:
  assumes "grows ids d d'" "grows ids' d' d''"
  shows "grows (ids @ ids') d d''"
proof -
  have "k \<in> set (doc_keys d) \<or> fst k \<in> set (ids @ ids')" if "k \<in> set (doc_keys d'')" for k
    using assms that unfolding grows_def by (metis Un_iff set_append)
  with assms show ?thesis by (auto simp: grows_def)
qed

lemma stored_copy_wf:
  assumes "store_wf d" "x \<in> set (rooms d)" "room_oid r = room_oid x" "room_roomId r = room_roomId x"
  shows "room_oid r < next_oid d" "room_oid r \<in> set (stored_ids d)"
    and "\<And>k. k \<in> set (doc_keys d) \<Longrightarrow> fst k = room_oid r \<Longrightarrow> snd k = room_roomId r"
  using assms
  by (auto simp: store_wf_def doc_keys_def stored_ids_def distinct_map dest: inj_onD)

lemma store_wf_update_first:
  assumes "store_wf d"
    and "\<And>x. room_roomId (f x) = room_roomId x" "\<And>x. room_oid (f x) = room_oid x"
    and "\<And>x. x \<in> set (rooms d) \<Longrightarrow> room_participants (f x) \<noteq> []"
  shows "grows ids d (d\<lparr>rooms := update_first P f (rooms d)\<rparr>)"
proof -
  have "room_wf y \<and> room_oid y < next_oid d" if "y \<in> set (update_first P f (rooms d))" for y
  proof -
    from that set_update_first_subset [of P f "rooms d"]
    consider "y \<in> set (rooms d)" | x where "x \<in> set (rooms d)" "y = f x" by auto
    then show ?thesis
      using assms by cases (auto simp: store_wf_def room_wf_def validate_room_def)
  qed
  with assms(1) show ?thesis
    by (simp add: grows_def store_wf_def stored_ids_def doc_keys_def message_ok_def
        map_key_update_first [of room_roomId f, OF assms(2)]
        map_key_update_first [of room_oid f, OF assms(3)]
        map_key_update_first [of "\<lambda>x. (room_oid x, room_roomId x)" f] assms(2,3))
qed

section \<open>Store calls\<close>

lemma Room_save_Created_wf:
  assumes "store_wf d" "Room_save Created r d = (res, d')"
    and "room_participants r \<noteq> []" "room_oid r < next_oid d" "room_oid r \<notin> set (stored_ids d)"
  shows "grows [room_oid r] d d'"
proof (cases res)
  case (Inl e)
  with assms(2) Room_save_Inl [of Created r d e d'] assms(1) show ?thesis
    by (intro grows_frame) simp_all
next
  case (Inr r')
  with assms(2) obtain d0 where d0: "validate_room r" "rooms d0 = rooms d"
    "messages d0 = messages d" "next_oid d0 = next_oid d" "send_change Created r d0 = (Inr r', d')"
    by (auto elim: Room_save_sent)
  from d0(5) have "d' = d0\<lparr>rooms := rooms d0 @ [r]\<rparr>"
    and "room_roomId r \<notin> room_roomId ` set (rooms d0)"
    by (auto simp: insert_room_def split: if_splits)
  with assms(1,3-5) d0(1-4) show ?thesis
    by (auto simp: grows_def store_wf_def stored_ids_def doc_keys_def room_wf_def message_ok_def)
qed

lemma Room_save_update_wf:
  assumes "store_wf d" "Room_save c r d = (res, d')" "c \<noteq> Created" "room_participants r \<noteq> []"
  shows "grows ids d d'"
proof (cases res)
  case (Inl e)
  with assms(2) Room_save_Inl [of c r d e d'] assms(1) show ?thesis
    by (intro grows_frame) simp_all
next
  case (Inr r')
  with assms(2) obtain d0 where d0: "validate_room r" "rooms d0 = rooms d"
    "messages d0 = messages d" "next_oid d0 = next_oid d" "send_change c r d0 = (Inr r', d')"
    by (auto elim: Room_save_sent)
  from assms(1) d0(2-4) have wf0: "store_wf d0" and g0: "grows ids d d0"
    by (auto simp: store_wf_def message_ok_def intro!: grows_frame [OF assms(1)])
  have "grows [] d0 d'"
  proof (cases c)
    case Created
    with assms(3) show ?thesis by simp
  next
    case (Pushed u)
    with d0(5) have "d' = d0\<lparr>rooms := update_first (same_doc r)
        (\<lambda>x. next_version (x\<lparr>room_participants := room_participants x @ [u]\<rparr>)) (rooms d0)\<rparr>"
      by (auto simp: push_room_def split: if_splits)
    then show ?thesis
      by (simp only:) (intro store_wf_update_first [OF wf0], simp_all add: next_version_def)
  next
    case (Assigned prior)
    with d0(5) consider "d' = d0"
      | "d' = d0\<lparr>rooms := update_first (same_version r)
          (\<lambda>x. next_version (x\<lparr>room_participants := room_participants r\<rparr>)) (rooms d0)\<rparr>"
      by (auto simp: assign_room_def check_room_def split: if_splits)
    then show ?thesis
    proof cases
      case 1
      with wf0 show ?thesis by (intro grows_frame) simp_all
    next
      case 2
      with assms(4) show ?thesis
        by (simp only:) (intro store_wf_update_first [OF wf0], simp_all add: next_version_def)
    qed
  qed
  with g0 show ?thesis by (auto simp: grows_def)
qed

lemma Room_deleteOne_wf:
  assumes "store_wf d" "Room_deleteOne rid d = (res, d')"
  shows "grows ids d d'"
proof -
  let ?P = "\<lambda>r. room_roomId r = rid"
  from Room_deleteOne_result [OF assms(2)]
  consider "rooms d' = rooms d" "messages d' = messages d" "next_oid d' = next_oid d"
    | "rooms d' = delete_first ?P (rooms d)" "messages d' = messages d" "next_oid d' = next_oid d"
    by auto
  then show ?thesis
  proof cases
    case 1
    with assms(1) show ?thesis by (intro grows_frame) simp_all
  next
    case 2
    with assms(1) set_delete_first_subset [of ?P "rooms d"] show ?thesis
      by (auto simp: grows_def store_wf_def stored_ids_def doc_keys_def message_ok_def
          distinct_map_delete_first)
  qed
qed

lemma Message_save_wf:
  assumes "store_wf d" "Message_save m d = (res, d')"
    and "msg_id m < next_oid d" "msg_id m \<notin> set (stored_ids d)"
  shows "grows [msg_id m] d d'"
proof (cases res)
  case (Inl e)
  with assms(2) Message_save_Inl [of m d e d'] assms(1) show ?thesis
    by (intro grows_frame) simp_all
next
  case (Inr m')
  with assms(2) Message_save_Inr [of m d m' d'] assms(1,3,4) show ?thesis
    by (auto simp: grows_def store_wf_def stored_ids_def doc_keys_def message_ok_def)
qed

lemma Message_deleteMany_wf:
  assumes "store_wf d" "Message_deleteMany rid d = (res, d')"
  shows "grows ids d d'"
proof -
  from Message_deleteMany_result [OF assms(2)]
  consider "rooms d' = rooms d" "messages d' = messages d" "next_oid d' = next_oid d"
    | "rooms d' = rooms d" "messages d' = filter (\<lambda>m. msg_roomId m \<noteq> rid) (messages d)"
      "next_oid d' = next_oid d"
    by auto
  then show ?thesis
  proof cases
    case 1
    with assms(1) show ?thesis by (intro grows_frame) simp_all
  next
    case 2
    with assms(1) show ?thesis
      by (auto simp: grows_def store_wf_def stored_ids_def doc_keys_def message_ok_def
          distinct_map_filter)
  qed
qed

lemma Room_findOne_wf: "store_wf d \<Longrightarrow> Room_findOne rid d = (res, d') \<Longrightarrow> grows ids d d'"
  by (drule Room_findOne_result) (auto intro: grows_frame)

lemma Query_exec_wf: "store_wf d \<Longrightarrow> Query_exec q d = (res, d') \<Longrightarrow> grows ids d d'"
  by (drule Query_exec_result) (auto intro: grows_frame)

lemmas store_wf_calls =
  Room_findOne_wf Query_exec_wf Room_deleteOne_wf Message_deleteMany_wf

section \<open>Suspended handlers\<close>

text \<open>
  \<open>draws t\<close> lists the ids of the documents the suspended handler has built and is about
  to save, \<open>reads t\<close> the copies of stored rooms it is about to save. \<open>task_wf d t\<close>: a room
  the handler is about to save lists somebody; the ids of the documents it built were
  drawn and are not stored; a stored room with the \<^verbatim>\<open>_id\<close> of a copy has the \<^verbatim>\<open>roomId\<close> of
  the copy. \<open>heir ids d d' t'\<close>: the handler goes on as \<open>t'\<close> with ids it held before
  (\<open>ids\<close>) or drew since the store was \<open>d\<close>, and with copies of rooms that \<open>d'\<close> stores.
\<close>

fun reads :: "task \<Rightarrow> room list" where
  "reads (Join_push sid rid u r) = [r]"
| "reads (Leave_save sid rid u prior r) = [r]"
| "reads t = []"

fun draws :: "task \<Rightarrow> object_id list" where
  "draws (Join_create sid rid u r) = [room_oid r]"
| "draws (Send_save sid rid sender content m) = [msg_id m]"
| "draws t = []"

fun task_ok :: "task \<Rightarrow> bool" where
  "task_ok (Join_create sid rid u r) = (room_participants r \<noteq> [])"
| "task_ok (Join_push sid rid u r) = (room_participants r \<noteq> [])"
| "task_ok (Leave_save sid rid u prior r) = (room_participants r \<noteq> [])"
| "task_ok t = True"

definition task_wf :: "db \<Rightarrow> task \<Rightarrow> bool" where
  "task_wf d t \<longleftrightarrow>
     task_ok t \<and> (\<forall>i \<in> set (draws t). i < next_oid d \<and> i \<notin> set (stored_ids d)) \<and>
     (\<forall>r \<in> set (reads t). room_oid r < next_oid d \<and>
        (\<forall>k \<in> set (doc_keys d). fst k = room_oid r \<longrightarrow> snd k = room_roomId r))"

definition heir :: "object_id list \<Rightarrow> db \<Rightarrow> db \<Rightarrow> task option \<Rightarrow> bool" where
  "heir ids d d' t' \<longleftrightarrow>
     (case t' of
        None \<Rightarrow> True
      | Some t \<Rightarrow> task_wf d' t \<and> (\<forall>i \<in> set (draws t). i \<in> set ids \<or> next_oid d \<le> i) \<and>
                 (\<forall>r \<in> set (reads t). room_oid r \<in> set (stored_ids d')))"

lemma heir_None [simp]: "heir ids d d' None"
  by (simp add: heir_def)

lemma heir_plain: "task_ok t \<Longrightarrow> draws t = [] \<Longrightarrow> reads t = [] \<Longrightarrow> heir ids d d' (Some t)"
  by (simp add: heir_def task_wf_def)

lemma heir_copy:
  assumes "store_wf d'" "x \<in> set (rooms d')" "reads t = [x\<lparr>room_participants := ps\<rparr>]"
    and "task_ok t" "draws t = []"
  shows "heir ids d d' (Some t)"
  using assms stored_copy_wf [OF assms(1,2), of "x\<lparr>room_participants := ps\<rparr>"]
  by (simp add: heir_def task_wf_def)

lemma joined_wf:
  assumes "joined sid rid u r d s = (es, t', s')" "transport_inv (sockets s)"
  shows "store s' = d \<and> transport_inv (sockets s') \<and> heir ids d0 d t'"
  using assms by (auto simp: joined_def transport_inv_bind_socket intro: heir_plain)

text \<open>What the arrival of an event and one resumption of a handler do to the store.\<close>

lemma spawn_wf:
  assumes "store_wf (store s)" "transport_inv (sockets s)" "spawn sid now ev s = (es, t', s')"
  shows "grows [] (store s) (store s') \<and> transport_inv (sockets s') \<and>
         heir [] (store s) (store s') t'"
proof (cases ev)
  case (SendMessage rid sender content)
  with assms(3) have "t' = Some (Send_save sid rid sender content
      \<lparr>msg_id = next_oid (store s), msg_roomId = rid, msg_sender = sender, msg_text = content,
       msg_timestamp = now\<rparr>)"
    and "s' = s\<lparr>store := (store s)\<lparr>next_oid := Suc (next_oid (store s))\<rparr>\<rparr>"
    by (auto simp: new_Message_def)
  with assms(1,2) stored_ids_below [OF assms(1), of "next_oid (store s)"] show ?thesis
    by (auto simp: heir_def task_wf_def stored_ids_def intro!: grows_frame)
next
  case Disconnect
  with assms show ?thesis
    by (auto simp: Let_def transport_inv_delete heir_def task_wf_def
        split: option.splits if_splits intro!: grows_frame)
qed (use assms in \<open>auto simp: typing_def heir_def task_wf_def intro!: grows_frame\<close>)

lemma resume_Join_find_wf:
  assumes "store_wf (store s)" "transport_inv (sockets s)"
    and "resume now (Join_find sid rid u) s = (es, t', s')"
  shows "grows [] (store s) (store s') \<and> transport_inv (sockets s') \<and>
         heir [] (store s) (store s') t'"
proof -
  obtain res d where f: "Room_findOne rid (store s) = (res, d)" by force
  note g = Room_findOne_wf [OF assms(1) f, of "[]"] and n = Room_findOne_result [OF f]
  from g have wf: "store_wf d" by (simp add: grows_def)
  show ?thesis
  proof (cases res)
    case (Inl e)
    with assms(2,3) f g show ?thesis by auto
  next
    case (Inr found)
    show ?thesis
    proof (cases found)
      case None
      with assms(3) f Inr have "t' = Some (Join_create sid rid u (fst (new_Room rid u now d)))"
        and "s' = s\<lparr>store := d\<lparr>next_oid := Suc (next_oid d)\<rparr>\<rparr>"
        by (auto simp: new_Room_def)
      with assms(1,2) n stored_ids_below [OF assms(1), of "next_oid (store s)"] show ?thesis
        by (auto simp: heir_def task_wf_def stored_ids_def new_Room_def intro!: grows_frame)
    next
      case (Some r)
      with f Inr have "Room_findOne rid (store s) = (Inr (Some r), d)" by simp
      then have x: "r \<in> set (rooms d)" by (rule Room_findOne_Some(3))
      note h = heir_copy [OF wf x, of "Join_push sid rid u (r\<lparr>room_participants := ps\<rparr>)" ps for ps]
      from Some assms(2,3) f Inr g joined_wf [of sid rid u r d s es t' s' "[]" "store s"]
      show ?thesis
        by (auto split: if_splits intro!: h)
    qed
  qed
qed

lemma resume_Leave_find_wf:
  assumes "store_wf (store s)" "transport_inv (sockets s)"
    and "resume now (Leave_find sid rid u) s = (es, t', s')"
  shows "grows [] (store s) (store s') \<and> transport_inv (sockets s') \<and>
         heir [] (store s) (store s') t'"
proof -
  obtain res d where f: "Room_findOne rid (store s) = (res, d)" by force
  note g = Room_findOne_wf [OF assms(1) f, of "[]"]
  from g have wf: "store_wf d" by (simp add: grows_def)
  show ?thesis
  proof (cases res)
    case (Inl e)
    with assms(2,3) f g show ?thesis by auto
  next
    case (Inr found)
    show ?thesis
    proof (cases found)
      case None
      with assms(2,3) f Inr g show ?thesis by auto
    next
      case (Some r)
      let ?ps = "filter (\<lambda>p. p \<noteq> u) (room_participants r)"
      from Some f Inr have "Room_findOne rid (store s) = (Inr (Some r), d)" by simp
      then have x: "r \<in> set (rooms d)" by (rule Room_findOne_Some(3))
      have "heir [] (store s) d
          (Some (Leave_save sid rid u (room_participants r) (r\<lparr>room_participants := ?ps\<rparr>)))"
        if "?ps \<noteq> []"
        using wf x by (rule heir_copy) (use that in simp_all)
      moreover have "heir [] (store s) d (Some (Leave_delete sid rid u))"
        by (rule heir_plain) simp_all
      ultimately show ?thesis
        using Some assms(2,3) f Inr g
        by (auto simp: Let_def remove_participant_def split: if_splits)
    qed
  qed
qed

lemma resume_save_wf:
  assumes "store_wf (store s)" "transport_inv (sockets s)" "task_wf (store s) t"
    and "t = Join_create sid rid u r \<or> t = Join_push sid rid u r \<or> t = Leave_save sid rid u prior r"
    and "resume now t s = (es, t', s')"
  shows "grows (draws t) (store s) (store s') \<and> transport_inv (sockets s') \<and>
         heir (draws t) (store s) (store s') t'"
proof -
  define c where "c = (case t of Join_create _ _ _ _ \<Rightarrow> Created | Join_push _ _ u' _ \<Rightarrow> Pushed u'
                        | _ \<Rightarrow> Assigned prior)"
  obtain res d where f: "Room_save c r (store s) = (res, d)" by force
  from assms(3,4) have p: "room_participants r \<noteq> []" by (auto simp: task_wf_def)
  have g: "grows (draws t) (store s) d"
  proof (cases "c = Created")
    case True
    with assms(4) have "t = Join_create sid rid u r" by (auto simp: c_def)
    with assms(1,3) f p True show ?thesis
      by (auto simp: task_wf_def intro: Room_save_Created_wf)
  next
    case False
    from Room_save_update_wf [OF assms(1) f False p] show ?thesis .
  qed
  from assms(4,5) f consider "t' = None" "s' = s\<lparr>store := d\<rparr>"
    | r' where "joined sid rid u r' d s = (es, t', s')"
    by (auto simp: c_def split: sum.splits)
  then show ?thesis
  proof cases
    case 1
    with g assms(2) show ?thesis by simp
  next
    case 2
    from joined_wf [OF this assms(2), of "draws t" "store s"] g show ?thesis by simp
  qed
qed

lemma resume_wf:
  assumes "store_wf (store s)" "transport_inv (sockets s)" "task_wf (store s) t"
    and "resume now t s = (es, t', s')"
  shows "grows (draws t) (store s) (store s') \<and> transport_inv (sockets s') \<and>
         heir (draws t) (store s) (store s') t'"
proof (cases t)
  case (Clear_delete sid rid)
  with assms(2,4) Message_deleteMany_wf [OF assms(1), of rid _ _ "[]"] show ?thesis
    by (auto split: prod.splits sum.splits)
next
  case (Join_find sid rid u)
  with assms resume_Join_find_wf [of s now sid rid u es t' s'] show ?thesis by simp
next
  case (Join_query sid rid u r)
  with assms(2,4) Query_exec_wf [OF assms(1), of "recent_messages_query rid" _ _ "[]"]
  show ?thesis
    by (auto split: prod.splits sum.splits)
next
  case (Send_save sid rid sender content m)
  with assms(2-4) Message_save_wf [OF assms(1), of m] show ?thesis
    by (auto simp: task_wf_def split: prod.splits sum.splits)
next
  case (Leave_find sid rid u)
  with assms resume_Leave_find_wf [of s now sid rid u es t' s'] show ?thesis by simp
next
  case (Leave_delete sid rid u)
  with assms(2,4) Room_deleteOne_wf [OF assms(1), of rid _ _ "[]"] show ?thesis
    by (auto split: prod.splits)
next
  case (Join_create sid rid u r)
  from resume_save_wf [OF assms(1-3) disjI1 [OF this] assms(4)] show ?thesis .
next
  case (Join_push sid rid u r)
  from resume_save_wf [OF assms(1-3) disjI2 [OF disjI1 [OF this]] assms(4)] show ?thesis .
next
  case (Leave_save sid rid u prior r)
  from resume_save_wf [OF assms(1-3) disjI2 [OF disjI2 [OF this]] assms(4)] show ?thesis .
qed

section \<open>The invariant of interleaved runs\<close>

text \<open>
  The store and the sockets are well formed, the suspended handlers have distinct task
  numbers below the next one, each holds well-formed documents, and no two of them hold
  the same id, be it of a document built or of a copy read (\<open>holds\<close>).
\<close>

definition holds :: "task \<Rightarrow> object_id list" where
  "holds t = draws t @ map room_oid (reads t)"

definition world_inv :: "world \<Rightarrow> bool" where
  "world_inv w \<longleftrightarrow>
     store_wf (store (srv w)) \<and> transport_inv (sockets (srv w)) \<and>
     distinct (map fst (pool w)) \<and> fresh_tasks w \<and>
     (\<forall>p \<in> set (pool w). task_wf (store (srv w)) (snd p)) \<and>
     (\<forall>p \<in> set (pool w). \<forall>q \<in> set (pool w).
        fst p \<noteq> fst q \<longrightarrow> set (draws (snd p)) \<inter> set (holds (snd q)) = {})"

definition held :: "task option \<Rightarrow> object_id list" where
  "held t = (case t of None \<Rightarrow> [] | Some t' \<Rightarrow> draws t')"

lemma held_simps [simp]: "held None = []" "held (Some t) = draws t"
  by (simp_all add: held_def)

lemma fresh_tasks_iff: "fresh_tasks w \<longleftrightarrow> (\<forall>k t. map_of (pool w) k = Some t \<longrightarrow> k < next_task w)"
  unfolding fresh_tasks_def by (metis domIff dom_map_of_conv_image_fst option.distinct(1) option.exhaust)

lemma world_inv_iff:
  "world_inv w \<longleftrightarrow>
     store_wf (store (srv w)) \<and> transport_inv (sockets (srv w)) \<and>
     distinct (map fst (pool w)) \<and>
     (\<forall>k t. map_of (pool w) k = Some t \<longrightarrow> k < next_task w \<and> task_wf (store (srv w)) t) \<and>
     (\<forall>k k' t t'. map_of (pool w) k = Some t \<longrightarrow> map_of (pool w) k' = Some t' \<longrightarrow> k \<noteq> k' \<longrightarrow>
        set (draws t) \<inter> set (holds t') = {})"
  unfolding world_inv_def fresh_tasks_iff
  by (cases "distinct (map fst (pool w))") (simp_all add: Ball_def, blast)

lemma world_inv_init [simp]: "world_inv init_world"
  by (simp add: world_inv_def init_world_def init_server_def fresh_tasks_def)

lemma distinct_pool_settle:
  "distinct (map fst (pool w)) \<Longrightarrow> distinct (map fst (pool (settle tid (es, t, s) w)))"
  by (cases t) (simp_all add: distinct_update distinct_delete)

lemma task_wf_kept:
  assumes "task_wf d t" "grows ids d d'" "set (holds t) \<inter> set ids = {}"
  shows "task_wf d' t"
proof -
  from assms(3) have a: "i \<notin> set ids" if "i \<in> set (draws t)" for i
    using that by (auto simp: holds_def)
  from assms(3) have b: "room_oid r \<notin> set ids" if "r \<in> set (reads t)" for r
    using that by (auto simp: holds_def)
  have "i < next_oid d' \<and> i \<notin> set (stored_ids d')" if "i \<in> set (draws t)" for i
    using assms(1,2) a [OF that] that by (auto simp: task_wf_def grows_def)
  moreover have "room_oid r < next_oid d' \<and>
      (\<forall>k \<in> set (doc_keys d'). fst k = room_oid r \<longrightarrow> snd k = room_roomId r)"
    if "r \<in> set (reads t)" for r
  proof (intro conjI ballI impI)
    from assms(1,2) that show "room_oid r < next_oid d'"
      by (auto simp: task_wf_def grows_def)
    fix k assume k: "k \<in> set (doc_keys d')" "fst k = room_oid r"
    with assms(2) b [OF that] have "k \<in> set (doc_keys d)" by (auto simp: grows_def)
    with assms(1) that k(2) show "snd k = room_roomId r" by (auto simp: task_wf_def)
  qed
  ultimately show ?thesis using assms(1) by (simp add: task_wf_def)
qed

lemma heir_apart:
  assumes "heir ids d d' (Some t)" "task_wf d u" "task_wf d' u" "set (holds u) \<inter> set ids = {}"
  shows "set (draws t) \<inter> set (holds u) = {}" "set (draws u) \<inter> set (holds t) = {}"
proof -
  have below: "i < next_oid d" if "i \<in> set (holds u)" for i
    using assms(2) that by (auto simp: task_wf_def holds_def)
  have fresh: "i \<notin> set (holds u)" if "i \<in> set (draws t)" for i
  proof
    assume "i \<in> set (holds u)"
    with below assms(4) have "i < next_oid d" "i \<notin> set ids" by auto
    with assms(1) that show False by (auto simp: heir_def)
  qed
  then show "set (draws t) \<inter> set (holds u) = {}" by auto
  have "i \<notin> set (holds t)" if "i \<in> set (draws u)" for i
  proof
    assume "i \<in> set (holds t)"
    then consider "i \<in> set (draws t)" | r where "r \<in> set (reads t)" "i = room_oid r"
      by (auto simp: holds_def)
    then show False
    proof cases
      case 1
      with fresh that show False by (auto simp: holds_def)
    next
      case 2
      with assms(1) have "i \<in> set (stored_ids d')" by (auto simp: heir_def)
      with assms(3) that show False by (auto simp: task_wf_def)
    qed
  qed
  then show "set (draws u) \<inter> set (holds t) = {}" by auto
qed

lemma world_inv_settle:
  assumes "world_inv w" "tid < next_task w"
    and "grows (held (map_of (pool w) tid)) (store (srv w)) (store s')"
    and "transport_inv (sockets s')"
    and "heir (held (map_of (pool w) tid)) (store (srv w)) (store s') t'"
  shows "world_inv (settle tid (es, t', s') w)"
proof -
  let ?d = "store (srv w)" and ?d' = "store s'" and ?old = "map_of (pool w) tid"
  note inv = assms(1) [unfolded world_inv_iff]
  note tasks = inv [THEN conjunct2, THEN conjunct2, THEN conjunct2, THEN conjunct1, rule_format]
    and pairs = inv [THEN conjunct2, THEN conjunct2, THEN conjunct2, THEN conjunct2, rule_format]
  have apart: "set (holds t) \<inter> set (held ?old) = {}"
    if "map_of (pool w) k = Some t" "k \<noteq> tid" for k t
  proof (cases ?old)
    case (Some t0)
    from pairs [OF Some that(1)] that(2) have "set (draws t0) \<inter> set (holds t) = {}" by auto
    with Some show ?thesis by auto
  qed simp
  have kept: "task_wf ?d' t" if "map_of (pool w) k = Some t" "k \<noteq> tid" for k t
    using tasks [OF that(1), THEN conjunct2] assms(3) apart [OF that] by (rule task_wf_kept)
  note new = heir_apart [OF _ tasks [THEN conjunct2] kept apart]
  from assms(5) have wf': "task_wf ?d' t" if "t' = Some t" for t
    using that by (simp add: heir_def)
  show ?thesis
    unfolding world_inv_iff map_of_settle settle_fields
  proof (intro conjI allI impI)
    show "store_wf ?d'" using assms(3) by (simp add: grows_def)
    show "transport_inv (sockets s')" by fact
    show "distinct (map fst (pool (settle tid (es, t', s') w)))"
      using inv by (intro distinct_pool_settle) simp
  next
    fix k t assume k: "((map_of (pool w))(tid := t')) k = Some t"
    with tasks [of k t] assms(2) show "k < next_task w" by (auto split: if_splits)
    from k kept wf' show "task_wf ?d' t" by (auto split: if_splits)
  next
    fix k k' t u
    assume "((map_of (pool w))(tid := t')) k = Some t" "((map_of (pool w))(tid := t')) k' = Some u"
      "k \<noteq> k'"
    then consider "t' = Some t" "map_of (pool w) k' = Some u" "k' \<noteq> tid"
      | "t' = Some u" "map_of (pool w) k = Some t" "k \<noteq> tid"
      | "map_of (pool w) k = Some t" "map_of (pool w) k' = Some u" "k \<noteq> k'"
      by (auto split: if_splits)
    then show "set (draws t) \<inter> set (holds u) = {}"
    proof cases
      case 1
      from new(1) [OF assms(5) [unfolded 1(1)] 1(2) 1(2,3) 1(2,3)] show ?thesis .
    next
      case 2
      from new(2) [OF assms(5) [unfolded 2(1)] 2(2) 2(2,3) 2(2,3)] show ?thesis .
    next
      case 3
      then show ?thesis by (rule pairs)
    qed
  qed
qed

lemma task_wf_grows: "task_wf d t \<Longrightarrow> grows [] d d' \<Longrightarrow> task_wf d' t"
  by (fastforce simp: task_wf_def grows_def)

lemma world_inv_srv:
  assumes "world_inv w" "grows [] (store (srv w)) (store (srv w'))"
    and "transport_inv (sockets (srv w'))" "pool w' = pool w" "next_task w \<le> next_task w'"
  shows "world_inv w'"
proof -
  note inv = assms(1) [unfolded world_inv_iff]
  have "k < next_task w' \<and> task_wf (store (srv w')) t" if "map_of (pool w) k = Some t" for k t
  proof -
    from inv that have "k < next_task w" "task_wf (store (srv w)) t" by blast+
    with assms(5) task_wf_grows [OF _ assms(2)] show ?thesis by auto
  qed
  with inv assms(2,3) show ?thesis
    unfolding world_inv_iff assms(4) by (simp add: grows_def)
qed

lemma route_wf:
  assumes "store_wf d"
  shows "get_room rid d = (r, d') \<Longrightarrow> grows [] d d'"
    and "get_room_messages rid d = (r, d') \<Longrightarrow> grows [] d d'"
  using Room_findOne_wf [OF assms, of rid _ d' "[]"]
    Query_exec_wf [OF assms, of "room_messages_query rid" _ d' "[]"]
  by (auto simp: get_room_def get_room_messages_def split: prod.splits sum.splits option.splits)

lemma world_inv_respond:
  assumes "world_inv w" "grows [] (store (srv w)) (snd p)"
  shows "world_inv (respond p w)"
  using assms(1)
  by (rule world_inv_srv)
     (use assms in \<open>auto simp: respond_def world_inv_def split: prod.splits\<close>)

lemma world_inv_next: "world_inv w \<Longrightarrow> world_inv (w\<lparr>next_task := Suc (next_task w)\<rparr>)"
  by (rule world_inv_srv [of w]) (auto simp: world_inv_def intro: grows_frame)

lemma world_inv_arrive:
  assumes "world_inv w" "connected sid (sockets (srv w))"
  shows "world_inv (make_move (Arrive sid now ev) w)"
proof -
  let ?w = "w\<lparr>next_task := Suc (next_task w)\<rparr>"
  obtain es t s where sp: "spawn sid now ev (srv w) = (es, t, s)"
    by (cases "spawn sid now ev (srv w)") auto
  from assms(1) have inv: "world_inv ?w" and none: "map_of (pool ?w) (next_task w) = None"
    by (simp_all add: world_inv_next) (simp add: world_inv_def fresh_tasks_next)
  from assms(1) spawn_wf [OF _ _ sp]
  have "grows [] (store (srv w)) (store s)" "transport_inv (sockets s)"
    "heir [] (store (srv w)) (store s) t"
    by (simp_all add: world_inv_def)
  with world_inv_settle [OF inv, of "next_task w" s t es] none sp assms(2) show ?thesis
    by simp
qed

lemma world_inv_advance:
  assumes "world_inv w"
  shows "world_inv (make_move (Advance tid now) w)"
proof (cases "map_of (pool w) tid")
  case None
  with assms show ?thesis by simp
next
  case (Some t)
  obtain es t' s' where r: "resume now t (srv w) = (es, t', s')"
    by (cases "resume now t (srv w)") auto
  from assms Some have "tid < next_task w" "store_wf (store (srv w))"
    "transport_inv (sockets (srv w))" "task_wf (store (srv w)) t"
    unfolding world_inv_iff by blast+
  with resume_wf [OF _ _ _ r] world_inv_settle [OF assms, of tid s' t' es] Some r show ?thesis
    by simp
qed

lemma make_move_inv: "world_inv w \<Longrightarrow> world_inv (make_move m w)"
proof (cases m)
  case (Open sid)
  assume "world_inv w"
  then show ?thesis
    by (rule world_inv_srv)
       (use Open \<open>world_inv w\<close> in
         \<open>auto simp: world_inv_def connection_def transport_inv_connect intro: grows_frame\<close>)
next
  case (Arrive sid now ev)
  assume "world_inv w"
  with Arrive world_inv_arrive [of w sid now ev] world_inv_next [of w] show ?thesis
    by (cases "connected sid (sockets (srv w))") simp_all
next
  case (Advance tid now)
  assume "world_inv w"
  with Advance world_inv_advance show ?thesis by simp
next
  case (Request rid)
  assume inv: "world_inv w"
  obtain r d where g: "get_room rid (store (srv w)) = (r, d)" by force
  from inv have "store_wf (store (srv w))" by (simp add: world_inv_def)
  from world_inv_respond [OF inv, of "(r, d)"] route_wf(1) [OF this g] Request g show ?thesis
    by simp
next
  case (Request_messages rid)
  assume inv: "world_inv w"
  obtain r d where g: "get_room_messages rid (store (srv w)) = (r, d)" by force
  from inv have "store_wf (store (srv w))" by (simp add: world_inv_def)
  from world_inv_respond [OF inv, of "(r, d)"] route_wf(2) [OF this g] Request_messages g show ?thesis
    by simp
next
  case (Fail bs)
  assume "world_inv w"
  then show ?thesis
    by (rule world_inv_srv)
       (use Fail \<open>world_inv w\<close> in \<open>auto simp: world_inv_def intro: grows_frame\<close>)
qed

lemma play_inv: "world_inv w \<Longrightarrow> world_inv (play ms w)"
  by (induction ms arbitrary: w) (auto intro: make_move_inv)

text \<open>
  The filter of a save. A save that updates is sent with the \<^verbatim>\<open>_id\<close> of the handler's copy
  in its filter, and with the version key when the array was assigned. In a well-formed
  world the copy a suspended handler is about to save has the \<^verbatim>\<open>roomId\<close> of the stored
  room with its \<^verbatim>\<open>_id\<close>, so \<open>same_doc\<close> and \<open>same_version\<close> select exactly by those keys.
\<close>

lemma save_filter_by_id:
  assumes "world_inv w" "map_of (pool w) tid = Some t" "r \<in> set (reads t)"
    and "x \<in> set (rooms (store (srv w)))"
  shows "same_doc r x \<longleftrightarrow> room_oid x = room_oid r"
    and "same_version r x \<longleftrightarrow> room_oid x = room_oid r \<and> room_version x = room_version r"
proof -
  from assms(1,2) have "task_wf (store (srv w)) t" unfolding world_inv_iff by blast
  with assms(3,4) have "room_oid x = room_oid r \<Longrightarrow> room_roomId x = room_roomId r"
    by (fastforce simp: task_wf_def doc_keys_def)
  then show "same_doc r x \<longleftrightarrow> room_oid x = room_oid r"
    and "same_version r x \<longleftrightarrow> room_oid x = room_oid r \<and> room_version x = room_version r"
    by (auto simp: same_doc_def same_version_def)
qed

text \<open>
  Claim C15: interleaved runs keep the server well formed. Whatever the schedule of
  connections, events, resumptions, route requests and store failures, and however the
  handlers overlap: room ids stay unique, every stored room has an id and lists
  somebody, every stored message has its required fields, stored documents have
  distinct ids, sockets stay well formed, a document a suspended handler has built and
  is about to save has an id that nothing stored and no other suspended handler has,
  and the copy of a room a suspended handler is about to save has the room id of the
  stored room with its \<^verbatim>\<open>_id\<close>, if there still is one.
\<close>

theorem interleaved_runs_well_formed:
  assumes "world_inv w"
  shows "world_inv (play ms w)"
  using assms by (rule play_inv)

theorem interleaved_runs_well_formed_witness:
  "world_inv (play [Open 1, Open 2, Arrive 1 5 (JoinRoom ''r1'' ''alice''),
                    Arrive 2 5 (JoinRoom ''r1'' ''alice''), Advance 0 6, Advance 1 6,
                    Arrive 1 7 (SendMessage ''r1'' ''alice'' ''hi''), Advance 1 8, Advance 0 8,
                    Fail [True], Advance 2 9, Arrive 2 9 Disconnect] init_world)"
  by (rule interleaved_runs_well_formed [OF world_inv_init])

text \<open>
  Stored documents conform to their schemas. From the start of the process
  and in every interleaved run, every stored room has the room id its schema requires,
  lists somebody, and is the only room with its id; every stored message has the room
  id, sender and text its schema requires.
\<close>

lemma stored_documents_conform:
  fixes ms :: "move list"
  defines "d \<equiv> store (srv (play ms init_world))"
  shows "(\<forall>r \<in> set (rooms d). validate_room r \<and> room_participants r \<noteq> [] \<and>
            find_room (room_roomId r) d = Some r) \<and>
         (\<forall>m \<in> set (messages d). validate_message m)"
proof -
  from play_inv [OF world_inv_init, of ms] have wf: "store_wf d"
    by (simp add: world_inv_def d_def)
  then have "find_room (room_roomId r) d = Some r" if "r \<in> set (rooms d)" for r
    using that by (simp add: store_wf_def find_room_def find_key_Some_iff)
  with wf show ?thesis
    by (simp add: store_wf_def room_wf_def message_ok_def)
qed

end
