(* ===== verification/Spec2Isabelle.thy ===== *)
theory Spec2Isabelle
  imports Refinement Failures Registry Clock Races World_Inv
begin

text \<open>
  Verification development of the chat relay \<^verbatim>\<open>src/server.js\<close>.

  \<^bold>\<open>The program.\<close> One Node.js process relays chat messages between browser sockets and
  keeps rooms and messages in a document store. It has four parts. The
  \<^emph>\<open>persistence model\<close> is two mongoose schemas, \<^verbatim>\<open>messageSchema\<close> (lines 28-33) and
  \<^verbatim>\<open>roomSchema\<close> (lines 35-39), and the store calls the rest of the file makes on their
  models. The \<^emph>\<open>room registry\<close> is the participant list of each room record together
  with the broadcast groups and the two fields \<^verbatim>\<open>socket.roomId\<close>, \<^verbatim>\<open>socket.username\<close> the
  transport keeps per socket. The \<^emph>\<open>event dispatcher\<close> is the five handlers that
  \<^verbatim>\<open>io.on('connection')\<close> registers on every socket (lines 45-165): \<^verbatim>\<open>clear-room-chat\<close>,
  \<^verbatim>\<open>join-room\<close>, \<^verbatim>\<open>send-message\<close>, \<^verbatim>\<open>typing\<close> and \<^verbatim>\<open>disconnect\<close>. The \<^emph>\<open>query surface\<close> is the
  two GET routes (lines 170-190). Handlers and routes meet only in the store.

  \<^bold>\<open>The theories.\<close>

  \<^item> \<open>Chat_Prelude\<close>: the collections of facts \<open>store_defs\<close>, \<open>transport_defs\<close>,
    \<open>handler_defs\<close>, \<open>inv_defs\<close>; the names of the model's base types; JavaScript
    truthiness of an optional string (\<open>js_truthy\<close>, the guard of line 144); lemmas on
    filtering, stable sorting by a key, search by a key, update and deletion of the
    first match in a list (\<open>update_first\<close>, \<open>delete_first\<close>), and association lists.

  \<^item> \<open>Persistence\<close>: the records \<open>message\<close> and \<open>room\<close> with the \<^verbatim>\<open>required\<close> validation
    of their schemas; the store \<open>db\<close> (both collections in insertion order, the next
    object id, and the schedule of failures); one definition per store call of the
    source: \<open>Room_findOne\<close>, \<open>Room_save\<close>, \<open>Room_deleteOne\<close>, \<open>Message_save\<close>,
    \<open>Message_deleteMany\<close>, and the query builder \<open>Message_find\<close>, \<open>Query_sort\<close>,
    \<open>Query_limit\<close>, \<open>Query_exec\<close>. A call returns \<open>Inl\<close> an error or \<open>Inr\<close> its value,
    with the store it leaves. A room document carries its \<^verbatim>\<open>_id\<close> (\<open>room_oid\<close>) and its
    version key \<^verbatim>\<open>__v\<close> (\<open>room_version\<close>), and \<open>Room_save\<close> sends the change the handler
    made to its copy (\<open>room_change\<close>), not the copy: an insert for \<^verbatim>\<open>new Room\<close> (line 66,
    \<open>insert_room\<close>, under the unique index on \<^verbatim>\<open>roomId\<close>), a push addressed by \<^verbatim>\<open>_id\<close> for
    \<^verbatim>\<open>participants.push\<close> (line 69, \<open>push_room\<close>), and for the assignment of line 148 a
    replacement of the list addressed by \<^verbatim>\<open>_id\<close> and \<^verbatim>\<open>__v\<close> (\<open>assign_room\<close>), or a check
    that the document exists when the list did not change (\<open>check_room\<close>); an update
    that matches no document throws. The lemmas give the result of every call on both
    branches, the frame of what it leaves unchanged, what a save does when the copy is
    fresh (\<open>Room_save_fresh\<close>), and preservation of the store invariant \<open>db_inv\<close>.

  \<^item> \<open>Transport\<close>: the outbound events \<open>out_event\<close>, the per-socket state \<open>socket\<close>,
    \<open>socket_join\<close>, and the three emitters \<open>socket_emit\<close> (\<^verbatim>\<open>socket.emit\<close>), \<open>io_to_emit\<close>
    (\<^verbatim>\<open>io.to(room).emit\<close>) and \<open>socket_to_emit\<close> (\<^verbatim>\<open>socket.to(room).emit\<close>). An emission is
    a list of deliveries \<open>(recipient, event)\<close>. The lemmas characterise group
    membership, the recipients of each emitter, and the transport invariant.

  \<^item> \<open>Dispatcher\<close>: the state \<open>server\<close> (store and transport) and one definition per
    handler: \<open>clear_room_chat\<close> (lines 49-57), \<open>join_room\<close> (59-102, with its parts
    \<open>find_or_create_room\<close>, \<open>bind_socket\<close>, \<open>recent_messages_query\<close>), \<open>send_message\<close>
    (105-132), \<open>typing\<close> (135-140), \<open>disconnect\<close> (143-164, with \<open>leave_room\<close> for its
    \<^verbatim>\<open>try\<close> block); \<open>handle\<close> and \<open>dispatch\<close> select the handler of an inbound event.
    Every \<^verbatim>\<open>catch\<close> branch is a branch of the definition, and what a handler did
    before a store call threw stays done. For each handler the lemmas give
    preservation of \<open>server_inv\<close>, the exact result on a store that does not fail
    (\<open>join_room_ok\<close>, \<open>send_message_ok\<close>, \<open>clear_room_chat_ok\<close>, \<open>disconnect_ok\<close>), the
    result on a failure, and who receives what.

  \<^item> \<open>Query_Surface\<close>: the routes \<open>get_room\<close> and \<open>get_room_messages\<close> with their
    200, 404 and 500 answers; they change nothing but the failure schedule.

  \<^item> \<open>Chat_System\<close>: the event loop. An \<open>action\<close> is a connection, an inbound
    event of a socket with the time the handler reads, a route request, or the
    environment scheduling store failures; \<open>step\<close> runs one action to completion,
    \<open>exec\<close> and \<open>reactions\<close> run a list of them, and \<open>reachable\<close> is the inductive set
    of states a run can reach from \<open>init_server\<close>. The lemmas are the invariant over
    all reachable states and the properties of sequences of joins and disconnects.

  \<^item> \<open>Chat_Spec\<close>: what the relay promises, independent of store and transport. The
    state \<open>chat\<close> is a roster (participants per existing room), a history (messages per
    room) and the sessions of the connected sockets; \<open>spec_step\<close> is the inductive
    relation of the steps an event may take, one rule per outcome of each operation,
    and \<open>spec_reachable\<close> the states they reach. The lemmas show by rule induction that
    the steps keep \<open>chat_inv\<close>, deliver only to connected sockets, send errors only to
    the caller, and change a history or a roster entry only through the events meant
    to change it.

  \<^item> \<open>Refinement\<close>: the abstraction \<open>abs_server\<close> from server states to \<open>chat\<close> and
    the simulation: on a well-formed server every handler performs a step of
    \<open>spec_step\<close> under any schedule of failures (\<open>join_room_refines\<close>,
    \<open>send_message_refines\<close>, \<open>clear_room_chat_refines\<close>, \<open>typing_refines\<close>,
    \<open>disconnect_refines\<close>), so reachable server states abstract to reachable states
    of the specification, and the lifecycle properties of the specification hold of
    the handlers.

  \<^item> \<open>Failures\<close>: the use the handlers make of the store. \<open>store_calls\<close> is the number
    of \<^verbatim>\<open>await\<close>ed store calls on the longest path of each handler and \<open>missing_field\<close>
    the payloads the schemas reject. The lemmas bound the calls of every handler by
    the flags it consumes, and trace every error event back to a throwing call or a
    rejected payload.

  \<^item> \<open>Registry\<close>: the agreement between the two places that hold the registry, the
    participant lists (\<open>listed_names\<close>) and the sockets' bound fields
    (\<open>bound_names\<close>). \<open>disciplined\<close> is the inductive set of states reached when no
    store call fails and every socket joins at most once, with non-empty room id and
    name, under a name the room does not list; by rule induction such states are
    \<open>tidy\<close>, so records and sockets agree. Outside that discipline they do not: the
    theorems on a second join (\<open>Chat_System\<close>), an empty name and a failed join
    (\<open>Dispatcher\<close>) and a shared name (\<open>Registry\<close>) show each way of losing the
    agreement.

  \<^item> \<open>Clock\<close>: runs whose event times never decrease (\<open>monotone_from\<close>). By
    induction on the run the stored messages are then in order of timestamp
    (\<open>stamped\<close>). This holds of handlers that run one after the other; theory \<open>Races\<close>
    shows two overlapping sends that are stored against the order of their timestamps.

  \<^item> \<open>Interleaving\<close>: the handlers cut at their \<^verbatim>\<open>await\<close>s. A \<open>task\<close> is a suspended
    handler: the store call it is about to make and the local variables of its
    continuation, among them the copy of the room it read. \<open>spawn\<close> runs a handler to
    its first \<^verbatim>\<open>await\<close> and \<open>resume\<close> from one \<^verbatim>\<open>await\<close> to the next; \<open>remaining\<close> bounds the
    store calls a suspended handler still makes, and \<open>run\<close> resumes one handler until
    it has ended. A \<open>world\<close> holds the server, the suspended handlers, the emissions
    and the responses; \<open>make_move\<close> makes one move (a connection, the arrival of an
    event, the resumption of a handler, a route request, a change of the failure
    schedule) and \<open>play\<close> a list of moves in any order. \<open>run_handle\<close> shows that a
    handler resumed alone until it ends is the handler of \<open>Dispatcher\<close>.

  \<^item> \<open>Races\<close>: five schedules in which two handlers overlap, executed on an
    arbitrary state by the lemmas \<open>resume_ok\<close>: two first joins of one room (the unique
    index rejects the second), a join during the disconnect of the last participant
    (the room is deleted with the new participant in it), two disconnects from one
    room (the second save finds the version changed and its removal is lost), two
    joins under one name (the name is stored twice), and two sends (the messages are
    stored and broadcast against the order of their timestamps). Each theorem states
    the outcome of the overlap next to that of the same events handled one after the
    other.

  \<^item> \<open>Schedules\<close>: what holds of every schedule. A handler resumed as often as it has
    store calls left gives what \<open>run\<close> computes (\<open>play_advances\<close>), so the schedule
    \<open>serial\<close>, which lets each handler end before the next action starts, is the run of
    \<open>Chat_System\<close> (\<open>play_serial\<close>). The store calls a suspended handler has left never
    grow and shrink with each of its resumptions (\<open>play_pending\<close>), so in any schedule a
    handler that is resumed three times has ended, and a join has been answered.

  \<^item> \<open>World_Inv\<close>: the invariant of interleaved runs. \<open>store_wf\<close> is \<open>db_inv\<close> without
    the clause that participant lists have no duplicates, which two overlapping joins
    break; \<open>task_wf\<close> says what a suspended handler holds (a room to save lists
    somebody; the ids of documents built and not yet saved are drawn and unused; a
    copy read from the store has the \<^verbatim>\<open>roomId\<close> of the stored room with its \<^verbatim>\<open>_id\<close>), and
    \<open>world_inv\<close> adds that suspended handlers hold distinct ids. \<open>grows\<close> summarises
    what a store call may do to the store; \<open>spawn_wf\<close> and \<open>resume_wf\<close> give it for each
    step of each handler, and \<open>make_move_inv\<close> concludes for every move.

  \<^item> This theory: properties that involve the dispatcher and the query surface
    together.

  \<^bold>\<open>Store failures.\<close> A store call can throw at any time. The field \<open>faults\<close> of \<open>db\<close> is
  the schedule of it: every call that reaches the store consumes one flag, and throws
  when the flag is set; an empty schedule means no failure. The action \<open>Faults\<close>
  lets the environment replace the schedule between two handlers, so the invariant
  theorems hold under every pattern of failures. Schema validation happens before the
  call reaches the store: a document with an empty required string is rejected without
  consuming a flag. Theorems about the outcome of a successful run assume
  \<open>faults = []\<close>.

  \<^bold>\<open>Queries.\<close> A mongoose query is a record of options; \<^verbatim>\<open>sort\<close> on a field that is already
  a sort key overwrites its direction, \<^verbatim>\<open>limit\<close> stores the limit, and execution filters,
  sorts, then limits, whatever the order of the builder calls. This is why the chain
  of lines 79-82, \<^verbatim>\<open>sort({timestamp: -1}).limit(50).sort({timestamp: 1})\<close>, runs as an
  ascending sort followed by the limit. The store fixes no order among messages with
  equal timestamps; \<open>sort_messages\<close> sorts stably (equal timestamps keep their insertion
  order, in both directions), which is one of the orders the store may return. The theorems on the replies state length, membership, multiplicity and
  ascending timestamps, which hold of every such order; where a theorem names the
  position of a message it assumes strictly increasing timestamps. Only
  \<open>recent_messages_small_room\<close>, which compares the two readings of the query as lists,
  uses that both readings are sorted by the same stable sort.

  \<^bold>\<open>Time and ids.\<close> Timestamps are natural numbers supplied with each event (\<^verbatim>\<open>new Date()\<close>
  and \<^verbatim>\<open>Date.now\<close> read the clock of the environment); no monotonicity is assumed
  outside theory \<open>Clock\<close>. Object ids are drawn from the counter \<open>next_oid\<close>, which only
  grows, so that ids are unique.

  \<^bold>\<open>Bounds.\<close> The source has no loop and no recursion: the handlers and routes are total
  functions defined by cases, and no fuel is needed. A handler makes at most three store
  calls (\<open>store_calls\<close>, \<open>remaining\<close>); \<open>run\<close>, which resumes a handler until it ends, is
  the one definition by general recursion, and its termination is proved with the
  measure \<open>pending\<close>. Three resumptions per handler are therefore enough in \<open>serial\<close>
  and in the liveness theorems. The only numeric bound of the program is the limit 50 of the
  join query; the theorems about it hold for collections of any size, and their
  witnesses use a room of 51 messages (\<open>long_room\<close>), the smallest one in which the
  limit cuts a message off.

  \<^bold>\<open>Documents and versions.\<close> The behaviour of \<^verbatim>\<open>save\<close> is that of mongoose with its default
  schema options: a document is tracked by \<^verbatim>\<open>_id\<close>; \<^verbatim>\<open>save\<close> of a document whose array
  was pushed to sends a push and increments \<^verbatim>\<open>__v\<close> without testing it; \<^verbatim>\<open>save\<close> after an
  array was assigned sends the array with the \<^verbatim>\<open>__v\<close> the handler read in the filter and
  throws when no document matches; \<^verbatim>\<open>save\<close> with nothing changed only checks that the
  document exists. The filters \<open>same_doc\<close> and \<open>same_version\<close> compare the \<^verbatim>\<open>_id\<close> together
  with the room id, which no operation changes; where ids are distinct this selects
  the document of that \<^verbatim>\<open>_id\<close> (\<open>same_doc_by_id\<close>), and in every interleaved run the
  filter of a suspended handler's save selects by \<^verbatim>\<open>_id\<close> alone, and by \<^verbatim>\<open>_id\<close> and \<^verbatim>\<open>__v\<close>
  (\<open>save_filter_by_id\<close> in \<open>World_Inv\<close>). On a copy that is fresh (read with no write in between) all three
  store the handler's participant list, which is what the theories in which handlers
  run to completion use.

  \<^bold>\<open>Not modelled.\<close> Payloads are well typed: an event whose fields are missing or are not
  strings is outside the model, as are schema casting and index builds. The private
  group every socket has under its own id is left out: no handler emits to it by that
  name, and \<open>socket_emit\<close> delivers to the socket directly. A room id given by a client is
  therefore never the private group of another socket in the model. Handlers exist
  per connection (lines 45-46 register them on the socket), so \<open>dispatch\<close> ignores an
  event of a socket that is not connected.
  An emission to a socket that has disconnected in the meantime is recorded like any
  other; the transport drops it. Logging, configuration, CORS and the HTTP and socket
  libraries are plumbing the file only calls. In \<open>Chat_System\<close>, \<open>Chat_Spec\<close>,
  \<open>Refinement\<close>, \<open>Failures\<close>, \<open>Registry\<close> and \<open>Clock\<close> handlers run to completion; theories
  \<open>Interleaving\<close>, \<open>Races\<close>, \<open>Schedules\<close> and \<open>World_Inv\<close> let them overlap at their
  \<^verbatim>\<open>await\<close>s. In a step of \<open>resume\<close> the store call and the code that follows it up to
  the next \<^verbatim>\<open>await\<close> happen together, and a route request is one step, taken when the
  store serves its only call. The refinement of theory \<open>Refinement\<close> is stated for
  handlers that run to completion; of overlapping handlers the development proves the
  invariant, the liveness properties and the five races, not a refinement.
\<close>

section \<open>Reading back what was written\<close>

text \<open>
  Claim C34: on a store that does not fail, a message sent by a connected socket with
  non-empty room, sender and text is in the answer of the messages route requested
  right after, with the time of the send as its timestamp, and the answer is in
  ascending order of timestamp.
\<close>

theorem send_then_get_room_messages:
  assumes "faults (store s) = []" "connected sid (sockets s)"
    and "rid \<noteq> []" "sender \<noteq> []" "content \<noteq> []"
  shows "\<exists>ms. reactions [Event sid now (SendMessage rid sender content), GetRoomMessages rid] s ! 1 =
             Replied \<lparr>status = 200, body = MessagesJson ms\<rparr> \<and>
           \<lparr>msg_id = next_oid (store s), msg_roomId = rid, msg_sender = sender, msg_text = content,
            msg_timestamp = now\<rparr> \<in> set ms \<and>
           sorted (map msg_timestamp ms)"
  using assms
  by (simp add: dispatch_def send_message_ok get_room_messages_ok room_messages_def)

theorem send_then_get_room_messages_witness:
  "faults (store (connection 1 init_server)) = [] \<and> connected 1 (sockets (connection 1 init_server)) \<and>
   reactions [Event 1 8 (SendMessage ''r1'' ''alice'' ''hi''), GetRoomMessages ''r1'']
       (connection 1 init_server) ! 1 =
     Replied \<lparr>status = 200, body = MessagesJson
       [\<lparr>msg_id = 0, msg_roomId = ''r1'', msg_sender = ''alice'', msg_text = ''hi'',
         msg_timestamp = 8\<rparr>]\<rparr>"
  using send_then_get_room_messages [of "connection 1 init_server" 1 "''r1''" "''alice''" "''hi''" 8]
  by (simp add: eval_defs route_defs)

text \<open>
  Claim C35: on a store that does not fail, after the last participant of a room has
  disconnected, the room route answers 404 for that room.
\<close>

theorem last_disconnect_then_not_found:
  assumes "server_inv s" "faults (store s) = []" "map_of (sockets s) sid = Some k"
    and "sock_roomId k = Some rid" "sock_username k = Some u" "rid \<noteq> []" "u \<noteq> []"
    and "participants_of rid (store s) = Some [u]"
  shows "reactions [Event sid now Disconnect, GetRoom rid] s =
           [Emitted [], Replied \<lparr>status = 404, body = ErrorJson ''Room not found''\<rparr>]"
proof -
  from assms(3) have c: "connected sid (sockets s)" by (simp add: connected_map_of)
  from assms(8) have "drop_participant u (participants_of rid (store s)) = None"
    by (simp add: drop_participant_def)
  with disconnect_ok [OF assms(1-7)] obtain s' where d: "disconnect sid s = ([], s')"
    and f: "faults (store s') = []" and p: "participants_of rid (store s') = None"
    by auto
  from p have "find_room rid (store s') = None" by (simp add: participants_of_def)
  with c d f show ?thesis by (simp add: dispatch_def get_room_ok)
qed

theorem last_disconnect_then_not_found_witness:
  "server_inv (exec [Connect 1, Event 1 5 (JoinRoom ''r1'' ''alice'')] init_server) \<and>
   participants_of ''r1'' (store (exec [Connect 1, Event 1 5 (JoinRoom ''r1'' ''alice'')] init_server)) =
     Some [''alice''] \<and>
   reactions [Event 1 9 Disconnect, GetRoom ''r1'']
       (exec [Connect 1, Event 1 5 (JoinRoom ''r1'' ''alice'')] init_server) =
     [Emitted [], Replied \<lparr>status = 404, body = ErrorJson ''Room not found''\<rparr>]"
proof -
  let ?s = "exec [Connect 1, Event 1 5 (JoinRoom ''r1'' ''alice'')] init_server"
  let ?k = "\<lparr>sock_rooms = [''r1''], sock_roomId = Some ''r1'', sock_username = Some ''alice''\<rparr>"
  have inv: "server_inv ?s" by (intro exec_inv server_inv_init)
  have f: "faults (store ?s) = []" and m: "map_of (sockets ?s) 1 = Some ?k"
    and p: "participants_of ''r1'' (store ?s) = Some [''alice'']"
    by (simp_all add: eval_defs)
  from last_disconnect_then_not_found [OF inv f m _ _ _ _ p, of 9] inv p show ?thesis by simp
qed

end
